theory Spec2Isabelle
  imports Complex_Main "HOL-Library.Product_Lexorder"
begin

section \<open>LieOTAlign: the alignment engine of gemini_tm_align_final.py\<close>

text \<open>
  A tensor of shape N x 3 is a list of triples, a tensor of shape m x r is a list of m
  rows. The scorer is modelled over an arithmetic that is a parameter, so that it covers
  the float32 numbers the program computes with; the other stages are modelled over the
  reals. What a Python exception does is a value \<open>Inl e\<close> of a sum type.
\<close>

datatype py_error =
  IndexError | ValueError | AttributeError | UnboundLocalError | ZeroDivisionError | AssertionError

type_synonym matrix = "real list list"

subsection \<open>The correspondence decoder\<close>

text \<open>
  \<open>torch.argmax(P, dim=1)\<close> gives, for each row, the index of the first maximal
  value. On a reduction dimension of size zero it raises IndexError.
\<close>

fun argmax_from :: "real \<Rightarrow> nat \<Rightarrow> nat \<Rightarrow> real list \<Rightarrow> nat" where
  "argmax_from best bi i [] = bi"
| "argmax_from best bi i (x # xs) =
     (if best < x then argmax_from x i (Suc i) xs else argmax_from best bi (Suc i) xs)"

definition argmax_row :: "real list \<Rightarrow> py_error + nat" where
  "argmax_row row = (case row of [] \<Rightarrow> Inl IndexError | x # xs \<Rightarrow> Inr (argmax_from x 0 1 xs))"

fun argmax_dim1 :: "matrix \<Rightarrow> py_error + nat list" where
  "argmax_dim1 [] = Inr []"
| "argmax_dim1 (row # rest) =
     (case argmax_row row of
        Inl e \<Rightarrow> Inl e
      | Inr j \<Rightarrow> (case argmax_dim1 rest of Inl e \<Rightarrow> Inl e | Inr js \<Rightarrow> Inr (j # js)))"

text \<open>
  \<open>torch.argsort(confidences, descending=True)\<close>: the row indices by falling
  confidence. The order torch gives to equal confidences is not fixed; the model takes
  the stable one. Nothing proved about the decoder depends on that choice: the lemmas on
  \<open>greedy_accept\<close> hold for each order of the rows.
\<close>

definition argsort_descending :: "real list \<Rightarrow> nat list" where
  "argsort_descending cs = sort_key (\<lambda>i. - (cs ! i)) [0..<length cs]"

text \<open>
  The loop of the decoder: \<open>aligned_pairs\<close> and \<open>used_cols\<close> are the state, threaded
  through the walk over \<open>sorted_indices\<close>.
\<close>

fun greedy_accept :: "nat list \<Rightarrow> nat list \<Rightarrow> nat set \<Rightarrow> (nat \<times> nat) list \<Rightarrow> (nat \<times> nat) list" where
  "greedy_accept best_cols [] used_cols aligned_pairs = aligned_pairs"
| "greedy_accept best_cols (i # sorted_indices) used_cols aligned_pairs =
     (let j = best_cols ! i in
      if j \<notin> used_cols
      then greedy_accept best_cols sorted_indices (insert j used_cols) (aligned_pairs @ [(i, j)])
      else greedy_accept best_cols sorted_indices used_cols aligned_pairs)"

definition decode_alignment_matrix :: "matrix \<Rightarrow> py_error + (nat \<times> nat) list" where
  "decode_alignment_matrix P =
     (case argmax_dim1 P of
        Inl e \<Rightarrow> Inl e
      | Inr best_cols \<Rightarrow>
          (let row_indices = [0..<length P];
               confidences = map (\<lambda>i. (P ! i) ! (best_cols ! i)) row_indices;
               sorted_indices = argsort_descending confidences
           in Inr (sort (greedy_accept best_cols sorted_indices {} []))))"

subsection \<open>The soft correspondence scorer\<close>

type_synonym vec3 = "real \<times> real \<times> real"

text \<open>
  \<open>get_d0\<close>: Python's conditional expression binds weakest, so the formula is the
  whole first branch. \<open>**\<close> on a positive base is \<open>powr\<close>.
\<close>

definition get_d0 :: "int \<Rightarrow> real" where
  "get_d0 len = (if len > 15 then 1.24 * (real_of_int (len - 15)) powr (1 / 3) - 1.8 else 0.5)"

text \<open>
  The scorer computes on float32 tensors. What the tensor library does on their
  elements is a parameter of the model, \<open>ops\<close>: the type \<open>'a\<close> of an element (a float32
  value: a number, an infinity or a NaN) and one function for each operation the scorer
  calls. Nothing is assumed of them, so what is proved of the scorer holds for the
  library's own arithmetic, with its rounding, its overflow to an infinity and its NaN:
  \<^item> \<open>t_scalar\<close>: a Python number as the operand of a tensor operation;
  \<^item> \<open>t_add\<close>, \<open>t_sub\<close>, \<open>t_mul\<close>, \<open>t_div\<close>, \<open>t_neg\<close>: \<open>+\<close>, \<open>-\<close>, \<open>*\<close>, \<open>/\<close> and the sign;
  \<^item> \<open>t_square\<close>: \<open>** 2\<close>; \<open>t_exp\<close>: \<open>torch.exp\<close>; \<open>t_sigmoid\<close>: \<open>torch.sigmoid\<close>;
  \<^item> \<open>t_dist\<close>: the entry of \<open>torch.cdist\<close> for two points;
  \<^item> \<open>t_sum\<close>: the sum of \<open>torch.sum\<close> over the elements it reduces, in their order.
\<close>

record 'a tensor_ops =
  t_scalar :: "real \<Rightarrow> 'a"
  t_add :: "'a \<Rightarrow> 'a \<Rightarrow> 'a"
  t_sub :: "'a \<Rightarrow> 'a \<Rightarrow> 'a"
  t_mul :: "'a \<Rightarrow> 'a \<Rightarrow> 'a"
  t_div :: "'a \<Rightarrow> 'a \<Rightarrow> 'a"
  t_neg :: "'a \<Rightarrow> 'a"
  t_square :: "'a \<Rightarrow> 'a"
  t_exp :: "'a \<Rightarrow> 'a"
  t_sigmoid :: "'a \<Rightarrow> 'a"
  t_dist :: "'a \<times> 'a \<times> 'a \<Rightarrow> 'a \<times> 'a \<times> 'a \<Rightarrow> 'a"
  t_sum :: "'a list \<Rightarrow> 'a"

definition cdist :: "'a tensor_ops \<Rightarrow> ('a \<times> 'a \<times> 'a) list \<Rightarrow> ('a \<times> 'a \<times> 'a) list \<Rightarrow> 'a list list" where
  "cdist ops coords_a coords_b = map (\<lambda>a. map (\<lambda>b. t_dist ops a b) coords_b) coords_a"

definition mat_map :: "('a \<Rightarrow> 'a) \<Rightarrow> 'a list list \<Rightarrow> 'a list list" where
  "mat_map f M = map (map f) M"

definition mat_mul_elem :: "'a tensor_ops \<Rightarrow> 'a list list \<Rightarrow> 'a list list \<Rightarrow> 'a list list" where
  "mat_mul_elem ops M N = map2 (map2 (t_mul ops)) M N"

text \<open>\<open>torch.sum(M)\<close>: the sum of all elements, row after row.\<close>

definition mat_sum :: "'a tensor_ops \<Rightarrow> 'a list list \<Rightarrow> 'a" where
  "mat_sum ops M = t_sum ops (concat M)"

text \<open>\<open>P.sum(dim=1, keepdim=True)\<close>: one sum for each row.\<close>

definition sum_dim1 :: "'a tensor_ops \<Rightarrow> 'a list list \<Rightarrow> 'a list" where
  "sum_dim1 ops P = map (t_sum ops) P"

text \<open>\<open>P.sum(dim=0, keepdim=True)\<close>: one sum for each column.\<close>

definition sum_dim0 :: "'a tensor_ops \<Rightarrow> 'a list list \<Rightarrow> 'a list" where
  "sum_dim0 ops P =
     (case P of [] \<Rightarrow> []
      | row # _ \<Rightarrow> map (\<lambda>j. t_sum ops (map (\<lambda>r. r ! j) P)) [0..<length row])"

definition sinkhorn_eps :: real where
  "sinkhorn_eps = 1 / 10 ^ 8"

definition div_rows :: "'a tensor_ops \<Rightarrow> 'a list list \<Rightarrow> 'a list \<Rightarrow> 'a list list" where
  "div_rows ops P totals =
     map2 (\<lambda>row s. map (\<lambda>x. t_div ops x (t_add ops s (t_scalar ops sinkhorn_eps))) row) P totals"

definition div_cols :: "'a tensor_ops \<Rightarrow> 'a list list \<Rightarrow> 'a list \<Rightarrow> 'a list list" where
  "div_cols ops P totals =
     map (\<lambda>row. map2 (\<lambda>x s. t_div ops x (t_add ops s (t_scalar ops sinkhorn_eps))) row totals) P"

text \<open>The loop \<open>for _ in range(num_iters)\<close>; \<open>range\<close> of a number below 1 is empty.\<close>

fun sinkhorn_loop :: "'a tensor_ops \<Rightarrow> nat \<Rightarrow> 'a list list \<Rightarrow> 'a list list" where
  "sinkhorn_loop ops 0 P = P"
| "sinkhorn_loop ops (Suc n) P =
     (let P1 = div_rows ops P (sum_dim1 ops P);
          P2 = div_cols ops P1 (sum_dim0 ops P1)
      in sinkhorn_loop ops n P2)"

definition sinkhorn_iterations :: "'a tensor_ops \<Rightarrow> 'a list list \<Rightarrow> int \<Rightarrow> 'a list list" where
  "sinkhorn_iterations ops M num_iters = sinkhorn_loop ops (nat num_iters) M"

definition get_sinkhorn_alignment_score ::
  "'a tensor_ops \<Rightarrow> ('a \<times> 'a \<times> 'a) list \<Rightarrow> ('a \<times> 'a \<times> 'a) list \<Rightarrow> int \<Rightarrow> int
     \<Rightarrow> real \<Rightarrow> real \<Rightarrow> real \<Rightarrow> int \<Rightarrow> 'a \<times> 'a list list" where
  "get_sinkhorn_alignment_score ops coords_a coords_b len_a len_b cutoff steepness gamma sinkhorn_iters =
     (let d0 = get_d0 len_b;
          dist_matrix = cdist ops coords_a coords_b;
          s_ij = mat_map (\<lambda>d. t_div ops (t_scalar ops 1)
                               (t_add ops (t_scalar ops 1)
                                  (t_square ops (t_div ops d (t_scalar ops d0))))) dist_matrix;
          w_ij = mat_map (\<lambda>d. t_sigmoid ops
                               (t_mul ops (t_neg ops (t_sub ops d (t_scalar ops cutoff)))
                                  (t_scalar ops steepness))) dist_matrix;
          reward_matrix = mat_mul_elem ops s_ij w_ij;
          P = sinkhorn_iterations ops
                (mat_map (\<lambda>x. t_exp ops (t_mul ops (t_scalar ops gamma) x)) reward_matrix)
                sinkhorn_iters;
          score = t_div ops (mat_sum ops (mat_mul_elem ops P reward_matrix))
                    (t_scalar ops (real_of_int len_b))
      in (score, P))"

text \<open>
  The arithmetic of the reals: the operations without rounding, overflow or NaN. The
  other stages of the run are modelled over it.
\<close>

definition euclid :: "vec3 \<Rightarrow> vec3 \<Rightarrow> real" where
  "euclid a b =
     (case a of (ax, ay, az) \<Rightarrow> case b of (bx, by, bz) \<Rightarrow>
        sqrt ((ax - bx)\<^sup>2 + (ay - by)\<^sup>2 + (az - bz)\<^sup>2))"

definition sigmoid :: "real \<Rightarrow> real" where
  "sigmoid x = 1 / (1 + exp (- x))"

definition exact_ops :: "real tensor_ops" where
  "exact_ops =
     \<lparr>t_scalar = (\<lambda>x. x), t_add = (+), t_sub = (-), t_mul = (*), t_div = (/),
      t_neg = uminus, t_square = (\<lambda>x. x\<^sup>2), t_exp = exp, t_sigmoid = sigmoid,
      t_dist = euclid, t_sum = sum_list\<rparr>"

text \<open>
  The scorer as the specification words it, entry by entry, in the same arithmetic:
  the reward of a pair of residues at distance d, one Sinkhorn round on the entries of
  an m x r matrix (each row by its sum plus the epsilon, then each column by its sum
  plus the epsilon), and the score as the sum over all pairs, divided by the
  reference length.
\<close>

definition spec_reward :: "'a tensor_ops \<Rightarrow> real \<Rightarrow> real \<Rightarrow> real \<Rightarrow> 'a \<Rightarrow> 'a" where
  "spec_reward ops d0 c k d =
     t_mul ops
       (t_div ops (t_scalar ops 1)
          (t_add ops (t_scalar ops 1) (t_square ops (t_div ops d (t_scalar ops d0)))))
       (t_sigmoid ops (t_mul ops (t_neg ops (t_sub ops d (t_scalar ops c))) (t_scalar ops k)))"

definition spec_row_normalise :: "'a tensor_ops \<Rightarrow> nat \<Rightarrow> nat \<Rightarrow> 'a list list \<Rightarrow> 'a list list" where
  "spec_row_normalise ops m r M =
     map (\<lambda>i. map (\<lambda>j. t_div ops (M ! i ! j)
                          (t_add ops (t_sum ops (map (\<lambda>j'. M ! i ! j') [0..<r]))
                             (t_scalar ops sinkhorn_eps))) [0..<r]) [0..<m]"

definition spec_col_normalise :: "'a tensor_ops \<Rightarrow> nat \<Rightarrow> nat \<Rightarrow> 'a list list \<Rightarrow> 'a list list" where
  "spec_col_normalise ops m r M =
     map (\<lambda>i. map (\<lambda>j. t_div ops (M ! i ! j)
                          (t_add ops (t_sum ops (map (\<lambda>i'. M ! i' ! j) [0..<m]))
                             (t_scalar ops sinkhorn_eps))) [0..<r]) [0..<m]"

definition spec_sinkhorn :: "'a tensor_ops \<Rightarrow> nat \<Rightarrow> nat \<Rightarrow> nat \<Rightarrow> 'a list list \<Rightarrow> 'a list list" where
  "spec_sinkhorn ops m r n M =
     ((\<lambda>Q. spec_col_normalise ops m r (spec_row_normalise ops m r Q)) ^^ n) M"

definition spec_reward_matrix ::
  "'a tensor_ops \<Rightarrow> ('a \<times> 'a \<times> 'a) list \<Rightarrow> ('a \<times> 'a \<times> 'a) list \<Rightarrow> real \<Rightarrow> real \<Rightarrow> real \<Rightarrow> 'a list list" where
  "spec_reward_matrix ops A B d0 c k =
     map (\<lambda>a. map (\<lambda>b. spec_reward ops d0 c k (t_dist ops a b)) B) A"

definition spec_assignment ::
  "'a tensor_ops \<Rightarrow> ('a \<times> 'a \<times> 'a) list \<Rightarrow> ('a \<times> 'a \<times> 'a) list \<Rightarrow> real \<Rightarrow> real \<Rightarrow> real \<Rightarrow> real
     \<Rightarrow> nat \<Rightarrow> 'a list list" where
  "spec_assignment ops A B d0 c k g n =
     spec_sinkhorn ops (length A) (length B) n
       (map (map (\<lambda>x. t_exp ops (t_mul ops (t_scalar ops g) x))) (spec_reward_matrix ops A B d0 c k))"

definition spec_score ::
  "'a tensor_ops \<Rightarrow> ('a \<times> 'a \<times> 'a) list \<Rightarrow> ('a \<times> 'a \<times> 'a) list \<Rightarrow> real \<Rightarrow> real \<Rightarrow> real
     \<Rightarrow> 'a list list \<Rightarrow> real \<Rightarrow> 'a" where
  "spec_score ops A B d0 c k P ref_len =
     t_div ops
       (t_sum ops
          (concat (map (\<lambda>i. map (\<lambda>j. t_mul ops (P ! i ! j)
                                        (spec_reward_matrix ops A B d0 c k ! i ! j))
                               [0..<length B]) [0..<length A])))
       (t_scalar ops ref_len)"

text \<open>The shape m x r of a matrix held as a list of rows.\<close>

definition rect :: "nat \<Rightarrow> nat \<Rightarrow> 'a list list \<Rightarrow> bool" where
  "rect m r M = (length M = m \<and> (\<forall>row \<in> set M. length row = r))"

subsection \<open>Python strings\<close>

text \<open>
  A string is a list of characters; a line read from a file keeps its newline. A slice
  \<open>s[a:b]\<close> never raises, an index \<open>s[i]\<close> beyond the end raises IndexError.
  \<open>str.strip\<close> and \<open>str.rstrip\<close> remove what \<open>str.isspace\<close> accepts.
\<close>

definition py_isspace :: "char \<Rightarrow> bool" where
  "py_isspace c = (c \<in> set [CHR 0x09, CHR 0x0A, CHR 0x0B, CHR 0x0C, CHR 0x0D, CHR 0x1C,
                              CHR 0x1D, CHR 0x1E, CHR 0x1F, CHR '' '', CHR 0x85, CHR 0xA0])"

definition rstrip :: "string \<Rightarrow> string" where
  "rstrip s = rev (dropWhile py_isspace (rev s))"

definition strip :: "string \<Rightarrow> string" where
  "strip s = dropWhile py_isspace (rstrip s)"

definition slice :: "string \<Rightarrow> nat \<Rightarrow> nat \<Rightarrow> string" where
  "slice s a b = take (b - a) (drop a s)"

definition index :: "string \<Rightarrow> nat \<Rightarrow> py_error + char" where
  "index s i = (if i < length s then Inr (s ! i) else Inl IndexError)"

definition startswith :: "string \<Rightarrow> string \<Rightarrow> bool" where
  "startswith s p = (take (length p) s = p)"

subsection \<open>Reading and writing PDB files\<close>

definition AA_3_TO_1 :: "(string \<times> char) list" where
  "AA_3_TO_1 =
     [(''ALA'', CHR ''A''), (''ARG'', CHR ''R''), (''ASN'', CHR ''N''), (''ASP'', CHR ''D''),
      (''CYS'', CHR ''C''), (''GLN'', CHR ''Q''), (''GLU'', CHR ''E''), (''GLY'', CHR ''G''),
      (''HIS'', CHR ''H''), (''ILE'', CHR ''I''), (''LEU'', CHR ''L''), (''LYS'', CHR ''K''),
      (''MET'', CHR ''M''), (''PHE'', CHR ''F''), (''PRO'', CHR ''P''), (''SER'', CHR ''S''),
      (''THR'', CHR ''T''), (''TRP'', CHR ''W''), (''TYR'', CHR ''Y''), (''VAL'', CHR ''V'')]"

definition aa_get :: "string \<Rightarrow> char" where
  "aa_get k = (case map_of AA_3_TO_1 k of None \<Rightarrow> CHR ''X'' | Some c \<Rightarrow> c)"

text \<open>
  The files: a path names the lines of a readable text file, or nothing. Opening a path
  that names nothing raises FileNotFoundError (which \<open>parse_pdb\<close> catches); opening a
  path for writing replaces what it names.
\<close>

type_synonym files = "string \<rightharpoonup> string list"

text \<open>
  The builtin \<open>float\<close> is a parameter of the model, \<open>pyfloat\<close>: \<open>None\<close> is its
  ValueError.
\<close>

type_synonym float_parser = "string \<Rightarrow> real option"

record pdb =
  coords :: "vec3 list"
  atom_lines :: "string list"
  sequence :: string

text \<open>What one turn of the loop over the lines does to the state of \<open>parse_pdb\<close>.\<close>

datatype line_action = Skip | Keep vec3 "(char \<times> string) option"

definition chain_given :: "string option \<Rightarrow> bool" where
  "chain_given chain_id = (case chain_id of None \<Rightarrow> False | Some c \<Rightarrow> c \<noteq> [])"

definition read_coords :: "float_parser \<Rightarrow> string \<Rightarrow> py_error + vec3" where
  "read_coords pyfloat line =
     (case pyfloat (slice line 30 38) of
        None \<Rightarrow> Inl ValueError
      | Some x \<Rightarrow>
          (case pyfloat (slice line 38 46) of
             None \<Rightarrow> Inl ValueError
           | Some y \<Rightarrow>
               (case pyfloat (slice line 46 54) of
                  None \<Rightarrow> Inl ValueError
                | Some z \<Rightarrow> Inr (x, y, z))))"

definition parse_line ::
  "float_parser \<Rightarrow> string option \<Rightarrow> bool \<Rightarrow> (char \<times> string) set \<Rightarrow> string \<Rightarrow> py_error + line_action" where
  "parse_line pyfloat chain_id c_alpha_only seen_residues line =
     (if \<not> startswith line ''ATOM'' then Inr Skip
      else if c_alpha_only \<and> strip (slice line 12 16) \<noteq> ''CA'' then Inr Skip
      else
        (case (if chain_given chain_id
               then (case index line 21 of
                       Inl e \<Rightarrow> Inl e
                     | Inr c \<Rightarrow> Inr (Some (strip [c]) \<noteq> chain_id))
               else Inr False) of
           Inl e \<Rightarrow> Inl e
         | Inr True \<Rightarrow> Inr Skip
         | Inr False \<Rightarrow>
             (case index line 16 of
                Inl e \<Rightarrow> Inl e
              | Inr alt_loc \<Rightarrow>
                  if alt_loc \<notin> {CHR '' '', CHR ''A''} then Inr Skip
                  else if c_alpha_only then
                    (case index line 21 of
                       Inl e \<Rightarrow> Inl e
                     | Inr ch \<Rightarrow>
                         (let residue_uid = (ch, slice line 22 27) in
                          if residue_uid \<in> seen_residues then Inr Skip
                          else (case read_coords pyfloat line of
                                  Inl e \<Rightarrow> Inl e
                                | Inr c \<Rightarrow> Inr (Keep c (Some residue_uid)))))
                  else (case read_coords pyfloat line of
                          Inl e \<Rightarrow> Inl e
                        | Inr c \<Rightarrow> Inr (Keep c None)))))"

fun parse_lines ::
  "float_parser \<Rightarrow> string option \<Rightarrow> bool \<Rightarrow> string list \<Rightarrow> (char \<times> string) set \<Rightarrow> pdb \<Rightarrow> py_error + pdb" where
  "parse_lines pyfloat chain_id c_alpha_only [] seen_residues acc = Inr acc"
| "parse_lines pyfloat chain_id c_alpha_only (line # rest) seen_residues acc =
     (case parse_line pyfloat chain_id c_alpha_only seen_residues line of
        Inl e \<Rightarrow> Inl e
      | Inr Skip \<Rightarrow> parse_lines pyfloat chain_id c_alpha_only rest seen_residues acc
      | Inr (Keep c uid) \<Rightarrow>
          parse_lines pyfloat chain_id c_alpha_only rest
            (case uid of None \<Rightarrow> seen_residues | Some u \<Rightarrow> insert u seen_residues)
            \<lparr>coords = coords acc @ [c], atom_lines = atom_lines acc @ [line],
             sequence = sequence acc @ [aa_get (slice line 17 20)]\<rparr>)"

text \<open>
  \<open>parse_pdb\<close> gives what it prints and what it returns: \<open>None\<close> stands for the triple
  \<open>(None, None, None)\<close>. An exception other than FileNotFoundError leaves the function.
\<close>

definition parse_pdb ::
  "float_parser \<Rightarrow> files \<Rightarrow> string \<Rightarrow> string option \<Rightarrow> bool \<Rightarrow> py_error + (string list \<times> pdb option)" where
  "parse_pdb pyfloat fs file_path chain_id c_alpha_only =
     (case fs file_path of
        None \<Rightarrow> Inr ([''Error: PDB file not found at '' @ file_path], None)
      | Some lines \<Rightarrow>
          (case parse_lines pyfloat chain_id c_alpha_only lines {}
                  \<lparr>coords = [], atom_lines = [], sequence = []\<rparr> of
             Inl e \<Rightarrow> Inl e
           | Inr p \<Rightarrow>
               if coords p = []
               then Inr ([''Error: No matching C-alpha atoms found in '' @ file_path
                            @ '' for specified chain.''], None)
               else Inr ([], Some p)))"

text \<open>
  The format \<open>8.3f\<close> of a real: rounded to thousandths (a tie goes to the even
  neighbour), with a minus sign below zero, padded with spaces on the left to at
  least eight characters.
\<close>

definition round_half_even :: "real \<Rightarrow> int" where
  "round_half_even x =
     (let f = \<lfloor>x\<rfloor>; d = x - of_int f in
      if d < 1 / 2 then f else if 1 / 2 < d then f + 1 else if even f then f else f + 1)"

fun digits :: "nat \<Rightarrow> string" where
  "digits n = (if n < 10 then [''0123456789'' ! n]
               else digits (n div 10) @ [''0123456789'' ! (n mod 10)])"

declare digits.simps [simp del]

definition zfill3 :: "string \<Rightarrow> string" where
  "zfill3 s = replicate (3 - length s) CHR ''0'' @ s"

definition format_8_3f :: "real \<Rightarrow> string" where
  "format_8_3f x =
     (let n = nat (round_half_even (\<bar>x\<bar> * 1000));
          body = (if x < 0 then ''-'' else []) @ digits (n div 1000) @ ''.''
                   @ zfill3 (digits (n mod 1000))
      in replicate (8 - length body) CHR '' '' @ body)"

definition write_pdb_line :: "string \<Rightarrow> vec3 \<Rightarrow> string" where
  "write_pdb_line line c =
     (case c of (x, y, z) \<Rightarrow>
        slice line 0 30 @ format_8_3f x @ format_8_3f y @ format_8_3f z
          @ rstrip (drop 54 line) @ [CHR 0x0A])"

text \<open>
  \<open>write_pdb\<close>: the file is opened (and so emptied) first; \<open>coords[i]\<close> beyond the
  last row raises IndexError, after the lines before it were written.
\<close>

fun write_pdb_lines :: "vec3 list \<Rightarrow> string list \<Rightarrow> string list \<times> py_error option" where
  "write_pdb_lines cs [] = ([], None)"
| "write_pdb_lines [] (line # rest) = ([], Some IndexError)"
| "write_pdb_lines (c # cs) (line # rest) =
     (case write_pdb_lines cs rest of (out, e) \<Rightarrow> (write_pdb_line line c # out, e))"

definition write_pdb :: "files \<Rightarrow> string \<Rightarrow> vec3 list \<Rightarrow> string list \<Rightarrow> files \<times> py_error option" where
  "write_pdb fs file_path cs lines =
     (case write_pdb_lines cs lines of (out, e) \<Rightarrow> (fs(file_path \<mapsto> out), e))"

text \<open>
  A reading of plain decimal fields, the values \<open>float\<close> gives them: optional blanks
  around an optional sign, digits, and an optional point with digits. (The builtin also
  takes exponents, underscores, \<open>inf\<close> and \<open>nan\<close>; this reading refuses them.)
\<close>

definition digit_value :: "char \<Rightarrow> nat option" where
  "digit_value c =
     map_of [(CHR ''0'', 0), (CHR ''1'', 1), (CHR ''2'', 2), (CHR ''3'', 3), (CHR ''4'', 4),
             (CHR ''5'', 5), (CHR ''6'', 6), (CHR ''7'', 7), (CHR ''8'', 8), (CHR ''9'', 9)] c"

fun digits_value :: "nat \<Rightarrow> string \<Rightarrow> nat option" where
  "digits_value acc [] = Some acc"
| "digits_value acc (c # cs) =
     (case digit_value c of None \<Rightarrow> None | Some d \<Rightarrow> digits_value (10 * acc + d) cs)"

definition unsigned_decimal :: "string \<Rightarrow> real option" where
  "unsigned_decimal s =
     (let ip = takeWhile (\<lambda>c. c \<noteq> CHR ''.'') s;
          fp = drop 1 (dropWhile (\<lambda>c. c \<noteq> CHR ''.'') s)
      in if ip = [] \<and> fp = [] then None
         else (case digits_value 0 ip of
                 None \<Rightarrow> None
               | Some i \<Rightarrow>
                   (case digits_value 0 fp of
                      None \<Rightarrow> None
                    | Some f \<Rightarrow> Some (real i + real f / 10 ^ length fp))))"

definition decimal_float :: float_parser where
  "decimal_float s =
     (case strip s of
        [] \<Rightarrow> None
      | c # cs \<Rightarrow>
          if c = CHR ''-'' then map_option uminus (unsigned_decimal cs)
          else if c = CHR ''+'' then unsigned_decimal cs
          else unsigned_decimal (c # cs))"

text \<open>Three atom records of one residue, for the examples.\<close>

definition record_N :: string where
  "record_N = ''ATOM      1  N   ALA A   1      11.104   6.134  -6.504  1.00  0.00           N  ''
                @ [CHR 0x0A]"

definition record_CA :: string where
  "record_CA = ''ATOM      2  CA  ALA A   1      12.560   6.000  -6.100  1.00  0.00           C''
                @ [CHR 0x0A]"

definition record_CB_altB :: string where
  "record_CB_altB = ''ATOM      3  CB BALA A   1      13.000   7.000  -5.000  1.00  0.00           C''
                @ [CHR 0x0A]"

text \<open>
  The records that the reading of all atoms keeps, by the tests of \<open>parse_pdb\<close> with
  \<open>c_alpha_only\<close> false: an atom record, of the chain asked for, at the blank or the
  \<open>A\<close> location.
\<close>

definition full_atom_record :: "string option \<Rightarrow> string \<Rightarrow> bool" where
  "full_atom_record chain_id line =
     (startswith line ''ATOM''
      \<and> (chain_given chain_id \<longrightarrow> Some (strip [line ! 21]) = chain_id)
      \<and> line ! 16 \<in> {CHR '' '', CHR ''A''})"

text \<open>The characters of a printed number that are digits.\<close>

definition plain_digit :: "char \<Rightarrow> bool" where
  "plain_digit c = (c \<noteq> CHR ''.'' \<and> \<not> py_isspace c \<and> c \<noteq> CHR ''-'' \<and> c \<noteq> CHR ''+'' \<and> digit_value c \<noteq> None)"

subsection \<open>Vectors and 3 x 3 matrices\<close>

text \<open>A 3 x 3 tensor is the triple of its rows.\<close>

type_synonym mat3 = "vec3 \<times> vec3 \<times> vec3"

definition vec_add :: "vec3 \<Rightarrow> vec3 \<Rightarrow> vec3" where
  "vec_add a b = (case a of (a0, a1, a2) \<Rightarrow> case b of (b0, b1, b2) \<Rightarrow> (a0 + b0, a1 + b1, a2 + b2))"

definition vec_sub :: "vec3 \<Rightarrow> vec3 \<Rightarrow> vec3" where
  "vec_sub a b = (case a of (a0, a1, a2) \<Rightarrow> case b of (b0, b1, b2) \<Rightarrow> (a0 - b0, a1 - b1, a2 - b2))"

definition vec_scale :: "real \<Rightarrow> vec3 \<Rightarrow> vec3" where
  "vec_scale k a = (case a of (a0, a1, a2) \<Rightarrow> (k * a0, k * a1, k * a2))"

definition dot :: "vec3 \<Rightarrow> vec3 \<Rightarrow> real" where
  "dot a b = (case a of (a0, a1, a2) \<Rightarrow> case b of (b0, b1, b2) \<Rightarrow> a0 * b0 + a1 * b1 + a2 * b2)"

definition zero_vec :: vec3 where
  "zero_vec = (0, 0, 0)"

definition mat_vec :: "mat3 \<Rightarrow> vec3 \<Rightarrow> vec3" where
  "mat_vec M v = (case M of (r0, r1, r2) \<Rightarrow> (dot r0 v, dot r1 v, dot r2 v))"

definition vec_mat :: "vec3 \<Rightarrow> mat3 \<Rightarrow> vec3" where
  "vec_mat v M =
     (case v of (v0, v1, v2) \<Rightarrow> case M of (r0, r1, r2) \<Rightarrow>
        vec_add (vec_scale v0 r0) (vec_add (vec_scale v1 r1) (vec_scale v2 r2)))"

definition mat_mul :: "mat3 \<Rightarrow> mat3 \<Rightarrow> mat3" where
  "mat_mul A B = (case A of (a0, a1, a2) \<Rightarrow> (vec_mat a0 B, vec_mat a1 B, vec_mat a2 B))"

definition transpose3 :: "mat3 \<Rightarrow> mat3" where
  "transpose3 M =
     (case M of ((a, b, c), (d, e, f), (g, h, i)) \<Rightarrow> ((a, d, g), (b, e, h), (c, f, i)))"

definition det3 :: "mat3 \<Rightarrow> real" where
  "det3 M =
     (case M of ((a, b, c), (d, e, f), (g, h, i)) \<Rightarrow>
        a * (e * i - f * h) - b * (d * i - f * g) + c * (d * h - e * g))"

definition identity3 :: mat3 where
  "identity3 = ((1, 0, 0), (0, 1, 0), (0, 0, 1))"

definition zero_mat :: mat3 where
  "zero_mat = (zero_vec, zero_vec, zero_vec)"

definition mat_add :: "mat3 \<Rightarrow> mat3 \<Rightarrow> mat3" where
  "mat_add A B =
     (case A of (a0, a1, a2) \<Rightarrow> case B of (b0, b1, b2) \<Rightarrow>
        (vec_add a0 b0, vec_add a1 b1, vec_add a2 b2))"

definition mat_scale :: "real \<Rightarrow> mat3 \<Rightarrow> mat3" where
  "mat_scale k A = (case A of (a0, a1, a2) \<Rightarrow> (vec_scale k a0, vec_scale k a1, vec_scale k a2))"

definition trace3 :: "mat3 \<Rightarrow> real" where
  "trace3 M = (case M of ((a, b, c), (d, e, f), (g, h, i)) \<Rightarrow> a + e + i)"

text \<open>\<open>X.mean(dim=0)\<close> of an N x 3 tensor, and the tensor moved by a vector.\<close>

definition sum_rows :: "vec3 list \<Rightarrow> vec3" where
  "sum_rows X = foldr vec_add X zero_vec"

definition mean_dim0 :: "vec3 list \<Rightarrow> vec3" where
  "mean_dim0 X = vec_scale (1 / real (length X)) (sum_rows X)"

definition sub_rows :: "vec3 list \<Rightarrow> vec3 \<Rightarrow> vec3 list" where
  "sub_rows X c = map (\<lambda>p. vec_sub p c) X"

definition add_rows :: "vec3 list \<Rightarrow> vec3 \<Rightarrow> vec3 list" where
  "add_rows X c = map (\<lambda>p. vec_add p c) X"

text \<open>\<open>torch.matmul(X, M)\<close> of an N x 3 tensor and a 3 x 3 one.\<close>

definition matmul_rows :: "vec3 list \<Rightarrow> mat3 \<Rightarrow> vec3 list" where
  "matmul_rows X M = map (\<lambda>p. vec_mat p M) X"

subsection \<open>The transformation parameterizer\<close>

text \<open>
  \<open>torch.linalg.matrix_exp\<close> is the exponential series of the matrix, taken entry by
  entry: the sum over n of the n-th power divided by n!.
\<close>

fun mat_pow :: "mat3 \<Rightarrow> nat \<Rightarrow> mat3" where
  "mat_pow M 0 = identity3"
| "mat_pow M (Suc n) = mat_mul M (mat_pow M n)"

definition vec_suminf :: "(nat \<Rightarrow> vec3) \<Rightarrow> vec3" where
  "vec_suminf f = ((\<Sum>n. fst (f n)), (\<Sum>n. fst (snd (f n))), (\<Sum>n. snd (snd (f n))))"

definition mat_suminf :: "(nat \<Rightarrow> mat3) \<Rightarrow> mat3" where
  "mat_suminf F =
     (vec_suminf (\<lambda>n. fst (F n)), vec_suminf (\<lambda>n. fst (snd (F n))), vec_suminf (\<lambda>n. snd (snd (F n))))"

definition matrix_exp :: "mat3 \<Rightarrow> mat3" where
  "matrix_exp M = mat_suminf (\<lambda>n. mat_scale (1 / fact n) (mat_pow M n))"

type_synonym vec6 = "real \<times> real \<times> real \<times> real \<times> real \<times> real"

definition get_transformation_matrix :: "vec6 \<Rightarrow> mat3 \<times> vec3" where
  "get_transformation_matrix params_vector =
     (case params_vector of (w0, w1, w2, u) \<Rightarrow>
        (matrix_exp ((0, - w2, w1), (w2, 0, - w0), (- w1, w0, 0)), u))"

subsection \<open>The Kabsch refiner\<close>

text \<open>
  \<open>torch.svd\<close> is a parameter of the model: it gives U, S and V for a matrix. What it
  promises for a matrix H is \<open>svd_of\<close>: H = U diag(S) V transposed, with U and V orthogonal and the
  singular values falling and not negative.
\<close>

type_synonym svd_fun = "mat3 \<Rightarrow> mat3 \<times> vec3 \<times> mat3"

definition diag3 :: "vec3 \<Rightarrow> mat3" where
  "diag3 s = (case s of (s0, s1, s2) \<Rightarrow> ((s0, 0, 0), (0, s1, 0), (0, 0, s2)))"

definition orthogonal3 :: "mat3 \<Rightarrow> bool" where
  "orthogonal3 Q = (mat_mul (transpose3 Q) Q = identity3 \<and> mat_mul Q (transpose3 Q) = identity3)"

definition svd_of :: "mat3 \<Rightarrow> mat3 \<times> vec3 \<times> mat3 \<Rightarrow> bool" where
  "svd_of H usv =
     (case usv of (U, (s0, s1, s2), V) \<Rightarrow>
        H = mat_mul (mat_mul U (diag3 (s0, s1, s2))) (transpose3 V)
        \<and> orthogonal3 U \<and> orthogonal3 V \<and> s0 \<ge> s1 \<and> s1 \<ge> s2 \<and> s2 \<ge> 0)"

definition outer :: "vec3 \<Rightarrow> vec3 \<Rightarrow> mat3" where
  "outer a b = (case a of (a0, a1, a2) \<Rightarrow> (vec_scale a0 b, vec_scale a1 b, vec_scale a2 b))"

text \<open>\<open>A_c.T @ B_c\<close>: the sum of the outer products of the rows.\<close>

definition cross_covariance :: "vec3 list \<Rightarrow> vec3 list \<Rightarrow> mat3" where
  "cross_covariance A_c B_c = foldr (\<lambda>(a, b) M. mat_add (outer a b) M) (zip A_c B_c) zero_mat"

text \<open>\<open>V[:, -1] *= -1\<close>.\<close>

definition negate_last_column :: "mat3 \<Rightarrow> mat3" where
  "negate_last_column V =
     (case V of ((a, b, c), (d, e, f), (g, h, i)) \<Rightarrow> ((a, b, - c), (d, e, - f), (g, h, - i)))"

definition kabsch :: "svd_fun \<Rightarrow> vec3 list \<Rightarrow> vec3 list \<Rightarrow> py_error + (mat3 \<times> vec3)" where
  "kabsch svd A B =
     (if length A \<noteq> length B then Inl AssertionError
      else
        (let centroid_A = mean_dim0 A; centroid_B = mean_dim0 B;
             A_c = sub_rows A centroid_A; B_c = sub_rows B centroid_B;
             H = cross_covariance A_c B_c
         in case svd H of (U, S, V) \<Rightarrow>
              (let R = mat_mul V (transpose3 U);
                   R' = (if det3 R < 0 then mat_mul (negate_last_column V) (transpose3 U) else R);
                   t = vec_sub centroid_B (mat_vec R' centroid_A)
               in Inr (R', t))))"

text \<open>
  The root-mean-square distance of two point sets, as the metrics block computes it:
  \<open>sqrt(mean(sum((X - Y)**2, dim=1)))\<close>.
\<close>

definition sq_dists :: "vec3 list \<Rightarrow> vec3 list \<Rightarrow> real list" where
  "sq_dists X Y = map2 (\<lambda>x y. dot (vec_sub x y) (vec_sub x y)) X Y"

definition mean_list :: "real list \<Rightarrow> real" where
  "mean_list ds = sum_list ds / real (length ds)"

definition rmsd :: "vec3 list \<Rightarrow> vec3 list \<Rightarrow> real" where
  "rmsd X Y = sqrt (mean_list (sq_dists X Y))"

text \<open>\<open>(R @ X.T).T + t\<close>.\<close>

definition superpose :: "mat3 \<Rightarrow> vec3 \<Rightarrow> vec3 list \<Rightarrow> vec3 list" where
  "superpose R t X = map (\<lambda>p. vec_add (mat_vec R p) t) X"

subsection \<open>The run: \<open>main\<close>\<close>

text \<open>
  The command line, as \<open>argparse\<close> hands it over. An option that was not given is
  \<open>None\<close>; \<open>if args.output\<close> holds for a path that is given and not empty
  (\<open>output_file\<close> is \<open>args.output\<close>).
\<close>

record args =
  mobile :: string
  reference :: string
  output_file :: "string option"
  matrix_out :: "string option"
  mobile_chain :: "string option"
  reference_chain :: "string option"
  steps :: int
  lr :: real
  print_freq :: int
  cutoff :: real
  steepness :: real
  gamma :: real
  sinkhorn_iters :: int

definition given :: "string option \<Rightarrow> bool" where
  "given p = (case p of None \<Rightarrow> False | Some s \<Rightarrow> s \<noteq> [])"

text \<open>
  What the run leaves to its libraries is a parameter of the model: the builtin
  \<open>float\<close>, \<open>torch.svd\<close>, and the optimizer, AdamW on the gradient of the loss. The
  optimizer is a state made for a learning rate, and a step that takes the loss as a
  function of the six parameters and gives the next state and the next parameters.
\<close>

record 'o backend =
  be_float :: float_parser
  be_svd :: svd_fun
  be_adamw_init :: "real \<Rightarrow> 'o"
  be_adamw_step :: "(vec6 \<Rightarrow> real) \<Rightarrow> 'o \<Rightarrow> vec6 \<Rightarrow> 'o \<times> vec6"

text \<open>
  What the run prints, one constructor for each \<open>print\<close> of \<open>main\<close> with the values it
  formats; \<open>Message\<close> is a line of \<open>parse_pdb\<close>.
\<close>

datatype printed =
  Banner
| Message string
| Chain_lengths nat nat
| Search_header
| Step_score int real
| Search_finished
| Analysis_header
| Found_pairs nat
| Kabsch_RMSD nat real
| TM_score_reference nat real
| TM_score_mobile nat real
| Sequence_identity real
| Pairs_header
| Pairs_row "(nat \<times> nat) list"
| Structure_header
| Writing_structure string
| Structure_written string string
| Matrix_header
| Matrix_saved string
| Finished

text \<open>\<open>torch.matmul(X, R.T) + u\<close>.\<close>

definition transform :: "mat3 \<Rightarrow> vec3 \<Rightarrow> vec3 list \<Rightarrow> vec3 list" where
  "transform R u X = add_rows (matmul_rows X (transpose3 R)) u"

text \<open>
  One pass of the loop body up to the score: lines 155 to 157. The run is modelled over
  the reals, so the scorer is taken at \<open>exact_ops\<close>.
\<close>

definition objective :: "args \<Rightarrow> vec3 list \<Rightarrow> vec3 list \<Rightarrow> nat \<Rightarrow> nat \<Rightarrow> vec6 \<Rightarrow> real \<times> matrix" where
  "objective a mobile_opt ref_opt len_mobile len_ref p =
     (case get_transformation_matrix p of (R, u) \<Rightarrow>
        get_sinkhorn_alignment_score exact_ops (transform R u mobile_opt) ref_opt
          (int len_mobile) (int len_ref) (cutoff a) (steepness a) (gamma a) (sinkhorn_iters a))"

text \<open>
  The loop over \<open>range(args.steps)\<close>. Its state is the optimizer, the parameters, the
  last \<open>P\<close> (none before the first pass) and what was printed. \<open>step % args.print_freq\<close>
  raises ZeroDivisionError for a frequency of 0.
\<close>

fun search_steps ::
  "'o backend \<Rightarrow> (vec6 \<Rightarrow> real \<times> matrix) \<Rightarrow> int \<Rightarrow> int \<Rightarrow> int list \<Rightarrow> 'o \<Rightarrow> vec6 \<Rightarrow> matrix option
     \<Rightarrow> printed list \<Rightarrow> printed list \<times> (py_error + vec6 \<times> matrix option)" where
  "search_steps be obj n_steps freq [] ost p last_P lg = (lg, Inr (p, last_P))"
| "search_steps be obj n_steps freq (step # rest) ost p last_P lg =
     (case obj p of (score, P) \<Rightarrow>
        if freq = 0 then (lg, Inl ZeroDivisionError)
        else
          (let lg' = (if step mod freq = 0 \<or> step = n_steps - 1
                       then lg @ [Step_score step score] else lg)
           in case be_adamw_step be (\<lambda>q. - fst (obj q)) ost p of (ost', p') \<Rightarrow>
                search_steps be obj n_steps freq rest ost' p' (Some P) lg'))"

text \<open>The locals of \<open>main\<close> that the stages after the search read.\<close>

record fit =
  mobile_coords_opt :: "vec3 list"
  ref_coords_opt :: "vec3 list"
  mobile_center :: vec3
  ref_center :: vec3
  mobile_seq :: string
  ref_seq :: string
  R_final :: mat3
  u_final :: vec3
  final_aligned_coords :: "vec3 list"

text \<open>Indexing a tensor or a string by a list of indices raises IndexError beyond the end.\<close>

definition index_rows :: "'a list \<Rightarrow> nat list \<Rightarrow> py_error + 'a list" where
  "index_rows X idx =
     (if list_all (\<lambda>i. i < length X) idx then Inr (map (\<lambda>i. X ! i) idx) else Inl IndexError)"

definition tm_score :: "real list \<Rightarrow> nat \<Rightarrow> real" where
  "tm_score d_sq len = sum_list (map (\<lambda>d. 1 / (1 + d / (get_d0 (int len))\<^sup>2)) d_sq) / real len"

text \<open>The metrics block, lines 175 to 196: nothing of it runs for an empty alignment.\<close>

definition quality_metrics :: "svd_fun \<Rightarrow> fit \<Rightarrow> (nat \<times> nat) list \<Rightarrow> py_error + printed list" where
  "quality_metrics svd f aligned_pairs =
     (let aligned_len = length aligned_pairs in
      if aligned_len > 0 then
        (let mobile_indices = map fst aligned_pairs; ref_indices = map snd aligned_pairs in
         case index_rows (mobile_coords_opt f) mobile_indices of
           Inl e \<Rightarrow> Inl e
         | Inr mob \<Rightarrow>
         case index_rows (ref_coords_opt f) ref_indices of
           Inl e \<Rightarrow> Inl e
         | Inr ref \<Rightarrow>
         case kabsch svd mob ref of
           Inl e \<Rightarrow> Inl e
         | Inr (kabsch_R, kabsch_t) \<Rightarrow>
         case index_rows (final_aligned_coords f) mobile_indices of
           Inl e \<Rightarrow> Inl e
         | Inr aligned \<Rightarrow>
         case index_rows (mobile_seq f) mobile_indices of
           Inl e \<Rightarrow> Inl e
         | Inr ms \<Rightarrow>
         case index_rows (ref_seq f) ref_indices of
           Inl e \<Rightarrow> Inl e
         | Inr rs \<Rightarrow>
           (let kabsch_rmsd = rmsd (superpose kabsch_R kabsch_t mob) ref;
                d_sq = sq_dists aligned ref;
                len_ref = length (ref_seq f); len_mobile = length (mobile_seq f);
                n_identical = length (filter (\<lambda>(x, y). x = y) (zip ms rs));
                seq_id = real n_identical / real aligned_len
            in Inr [Kabsch_RMSD aligned_len kabsch_rmsd,
                    TM_score_reference len_ref (tm_score d_sq len_ref),
                    TM_score_mobile len_mobile (tm_score d_sq len_mobile),
                    Sequence_identity seq_id]))
      else Inr [])"

text \<open>The rows of six pairs that are printed.\<close>

definition pairs_rows :: "(nat \<times> nat) list \<Rightarrow> printed list" where
  "pairs_rows ps = map (\<lambda>k. Pairs_row (take 6 (drop (6 * k) ps))) [0..<(length ps + 5) div 6]"

text \<open>The coordinates that are written, lines 205 to 207.\<close>

definition final_full_coords_out :: "vec3 list \<Rightarrow> mat3 \<Rightarrow> vec3 \<Rightarrow> vec3 \<Rightarrow> vec3 list" where
  "final_full_coords_out mobile_coords_full R u ref_c =
     (let mobile_center_full = mean_dim0 mobile_coords_full;
          centered_mobile_full = sub_rows mobile_coords_full mobile_center_full
      in add_rows (transform R u centered_mobile_full) ref_c)"

text \<open>
  The structure stage, lines 202 to 211. A reload that comes back empty leaves
  \<open>None.mean\<close>: AttributeError.
\<close>

definition write_structure ::
  "'o backend \<Rightarrow> args \<Rightarrow> files \<Rightarrow> fit \<Rightarrow> files \<times> printed list \<times> py_error option" where
  "write_structure be a fs f =
     (case output_file a of
        None \<Rightarrow> (fs, [], None)
      | Some path \<Rightarrow>
          if path = [] then (fs, [], None)
          else
            (case parse_pdb (be_float be) fs (mobile a) (mobile_chain a) False of
               Inl e \<Rightarrow> (fs, [Structure_header], Some e)
             | Inr (msgs, None) \<Rightarrow> (fs, Structure_header # map Message msgs, Some AttributeError)
             | Inr (msgs, Some full) \<Rightarrow>
                 (case write_pdb fs path
                         (final_full_coords_out (coords full) (R_final f) (u_final f) (ref_center f))
                         (atom_lines full) of
                    (fs', None) \<Rightarrow>
                      (fs', Structure_header # map Message msgs
                              @ [Writing_structure path, Structure_written (reference a) path], None)
                  | (fs', Some e) \<Rightarrow>
                      (fs', Structure_header # map Message msgs @ [Writing_structure path], Some e))))"

text \<open>The format \<open>.8f\<close>, \<open>os.path.basename\<close>, and the lines of the matrix report.\<close>

definition format_8f :: "real \<Rightarrow> string" where
  "format_8f x =
     (let n = nat (round_half_even (\<bar>x\<bar> * 10 ^ 8));
          frac = digits (n mod 10 ^ 8)
      in (if x < 0 then ''-'' else []) @ digits (n div 10 ^ 8) @ ''.''
           @ replicate (8 - length frac) CHR ''0'' @ frac)"

definition basename :: "string \<Rightarrow> string" where
  "basename p = rev (takeWhile (\<lambda>c. c \<noteq> CHR ''/'') (rev p))"

definition matrix_row :: "string \<Rightarrow> vec3 \<Rightarrow> string" where
  "matrix_row name v =
     (case v of (a, b, c) \<Rightarrow>
        name @ ''[0] = '' @ format_8f a @ '', '' @ name @ ''[1] = '' @ format_8f b @ '', ''
          @ name @ ''[2] = '' @ format_8f c @ [CHR 0x0A])"

definition matrix_report :: "args \<Rightarrow> fit \<Rightarrow> string list" where
  "matrix_report a f =
     (case R_final f of (r0, r1, r2) \<Rightarrow>
        [''# Transformation matrix for '' @ basename (mobile a) @ '' -> '' @ basename (reference a)
           @ [CHR 0x0A],
         ''# This matrix should be applied to the CENTERED coordinates of the mobile protein.''
           @ [CHR 0x0A],
         matrix_row ''t'' (u_final f),
         matrix_row ''u[0]'' r0, matrix_row ''u[1]'' r1, matrix_row ''u[2]'' r2])"

definition write_matrix :: "args \<Rightarrow> files \<Rightarrow> fit \<Rightarrow> files \<times> printed list" where
  "write_matrix a fs f =
     (case matrix_out a of
        None \<Rightarrow> (fs, [])
      | Some path \<Rightarrow>
          if path = [] then (fs, [])
          else (fs(path \<mapsto> matrix_report a f), [Matrix_header, Matrix_saved path]))"

text \<open>The two output stages, lines 202 to 222, and the end of the run.\<close>

definition write_outputs ::
  "'o backend \<Rightarrow> args \<Rightarrow> files \<Rightarrow> fit \<Rightarrow> files \<times> printed list \<times> py_error option" where
  "write_outputs be a fs f =
     (case write_structure be a fs f of
        (fs1, log1, Some e) \<Rightarrow> (fs1, log1, Some e)
      | (fs1, log1, None) \<Rightarrow>
          (case write_matrix a fs1 f of (fs2, log2) \<Rightarrow> (fs2, log1 @ log2 @ [Finished], None)))"

text \<open>From the decoded alignment to the end: lines 170 to 225.\<close>

definition report_and_write ::
  "'o backend \<Rightarrow> args \<Rightarrow> files \<Rightarrow> fit \<Rightarrow> (nat \<times> nat) list \<Rightarrow> files \<times> printed list \<times> py_error option" where
  "report_and_write be a fs f aligned_pairs =
     (let head = [Analysis_header, Found_pairs (length aligned_pairs)] in
      case quality_metrics (be_svd be) f aligned_pairs of
        Inl e \<Rightarrow> (fs, head, Some e)
      | Inr metrics \<Rightarrow>
          (case write_outputs be a fs f of
             (fs', lg, e) \<Rightarrow>
               (fs', head @ metrics @ [Pairs_header] @ pairs_rows aligned_pairs @ lg, e)))"

text \<open>
  The search and what follows it, lines 142 to 225, for two structures that were read.
  AdamW refuses a negative learning rate with ValueError; after a loop of no pass,
  \<open>P\<close> is unbound.
\<close>

definition align ::
  "'o backend \<Rightarrow> args \<Rightarrow> files \<Rightarrow> pdb \<Rightarrow> pdb \<Rightarrow> files \<times> printed list \<times> py_error option" where
  "align be a fs mob ref =
     (let len_mobile = length (sequence mob); len_ref = length (sequence ref);
          mobile_c = mean_dim0 (coords mob); ref_c = mean_dim0 (coords ref);
          mobile_opt = sub_rows (coords mob) mobile_c; ref_opt = sub_rows (coords ref) ref_c;
          log0 = [Chain_lengths len_mobile len_ref]
      in if lr a < 0 then (fs, log0, Some ValueError)
      else
        (case search_steps be (objective a mobile_opt ref_opt len_mobile len_ref)
                (steps a) (print_freq a) (map int [0..<nat (steps a)])
                (be_adamw_init be (lr a)) (0, 0, 0, 0, 0, 0) None (log0 @ [Search_header]) of
           (log1, Inl e) \<Rightarrow> (fs, log1, Some e)
         | (log1, Inr (p, None)) \<Rightarrow> (fs, log1, Some UnboundLocalError)
         | (log1, Inr (p, Some final_P)) \<Rightarrow>
             (case get_transformation_matrix p of (R, u) \<Rightarrow>
                (let f = \<lparr>mobile_coords_opt = mobile_opt, ref_coords_opt = ref_opt,
                          mobile_center = mobile_c, ref_center = ref_c,
                          mobile_seq = sequence mob, ref_seq = sequence ref,
                          R_final = R, u_final = u,
                          final_aligned_coords = transform R u mobile_opt\<rparr>
                 in case decode_alignment_matrix final_P of
                      Inl e \<Rightarrow> (fs, log1 @ [Search_finished], Some e)
                    | Inr aligned_pairs \<Rightarrow>
                        (case report_and_write be a fs f aligned_pairs of
                           (fs', log2, e) \<Rightarrow> (fs', log1 @ [Search_finished] @ log2, e))))))"

text \<open>
  \<open>main\<close>: the files after the run, what was printed, and the exception that ended
  the run, if one did. It reads both structures and returns if one is missing.
\<close>

definition main :: "'o backend \<Rightarrow> args \<Rightarrow> files \<Rightarrow> files \<times> printed list \<times> py_error option" where
  "main be a fs =
     (case parse_pdb (be_float be) fs (mobile a) (mobile_chain a) True of
        Inl e \<Rightarrow> (fs, [Banner], Some e)
      | Inr (msgs1, mob) \<Rightarrow>
          (case parse_pdb (be_float be) fs (reference a) (reference_chain a) True of
             Inl e \<Rightarrow> (fs, Banner # map Message msgs1, Some e)
           | Inr (msgs2, ref) \<Rightarrow>
               (case (mob, ref) of
                  (Some m, Some r) \<Rightarrow>
                    (case align be a fs m r of
                       (fs', lg, e) \<Rightarrow> (fs', Banner # map Message (msgs1 @ msgs2) @ lg, e))
                | _ \<Rightarrow> (fs, Banner # map Message (msgs1 @ msgs2), None))))"

text \<open>
  The structure writer as the specification words it: the reloaded atoms are centred by
  the centroid that the search used, \<open>mobile_center\<close>.
\<close>

definition spec_full_coords_out :: "vec3 list \<Rightarrow> vec3 \<Rightarrow> mat3 \<Rightarrow> vec3 \<Rightarrow> vec3 \<Rightarrow> vec3 list" where
  "spec_full_coords_out mobile_coords_full mobile_c R u ref_c =
     add_rows (transform R u (sub_rows mobile_coords_full mobile_c)) ref_c"

text \<open>
  For the examples: a backend whose optimizer leaves the parameters where they are (as
  AdamW does at learning rate 0), a command line, and the files of a run on the three
  records above.
\<close>

definition still_backend :: "unit backend" where
  "still_backend =
     \<lparr>be_float = decimal_float,
      be_svd = (\<lambda>H. (identity3, zero_vec, identity3)),
      be_adamw_init = (\<lambda>rate. ()),
      be_adamw_step = (\<lambda>loss ost p. (ost, p))\<rparr>"

definition example_args :: args where
  "example_args =
     \<lparr>mobile = ''m.pdb'', reference = ''r.pdb'', output_file = Some ''out.pdb'',
      matrix_out = Some ''matrix.txt'', mobile_chain = None, reference_chain = None,
      steps = 1, lr = 0, print_freq = 100, cutoff = 7, steepness = 2, gamma = 20,
      sinkhorn_iters = 10\<rparr>"

definition example_files :: files where
  "example_files = [''m.pdb'' \<mapsto> [record_N, record_CA, record_CB_altB]]"

definition example_fit :: fit where
  "example_fit =
     \<lparr>mobile_coords_opt = [(0, 0, 0)], ref_coords_opt = [(0, 0, 0)],
      mobile_center = (12.56, 6, - 6.1), ref_center = (12.56, 6, - 6.1),
      mobile_seq = ''A'', ref_seq = ''A'',
      R_final = identity3, u_final = zero_vec,
      final_aligned_coords = [(0, 0, 0)]\<rparr>"

text \<open>
  For the example of the refiner: two points on the first axis, the same two points
  after a quarter turn about the third axis, and a decomposition of their cross
  covariance, the matrix with the one entry 2 in row 0 and column 1.
\<close>

definition quarter_turn_A :: "vec3 list" where
  "quarter_turn_A = [(1, 0, 0), (- 1, 0, 0)]"

definition quarter_turn_B :: "vec3 list" where
  "quarter_turn_B = [(0, 1, 0), (0, - 1, 0)]"

definition quarter_turn_svd :: svd_fun where
  "quarter_turn_svd H = (identity3, (2, 0, 0), ((0, 1, 0), (1, 0, 0), (0, 0, 1)))"

section \<open>Properties\<close>

subsection \<open>The correspondence decoder\<close>

lemma argmax_from_bound:
  "bi < i \<Longrightarrow> argmax_from best bi i xs < i + length xs"
proof (induction xs arbitrary: best bi i)
  case Nil
  then show ?case by simp
next
  case (Cons x xs)
  have "argmax_from x i (Suc i) xs < Suc i + length xs"
    by (rule Cons.IH) simp
  moreover have "argmax_from best bi (Suc i) xs < Suc i + length xs"
    by (rule Cons.IH) (use Cons.prems in simp)
  ultimately show ?case by simp
qed

lemma argmax_row_bound:
  "argmax_row row = Inr j \<Longrightarrow> j < length row"
  using argmax_from_bound [of 0 1] by (auto simp: argmax_row_def split: list.splits)

lemma argmax_row_nonempty:
  "row \<noteq> [] \<Longrightarrow> \<exists>j. argmax_row row = Inr j"
  by (cases row) (auto simp: argmax_row_def)

lemma argmax_dim1_total:
  "[] \<notin> set P \<Longrightarrow> \<exists>js. argmax_dim1 P = Inr js"
proof (induction P)
  case Nil
  then show ?case by simp
next
  case (Cons row rest)
  then obtain js where "argmax_dim1 rest = Inr js" by auto
  moreover obtain j where "argmax_row row = Inr j"
    using Cons.prems argmax_row_nonempty [of row] by auto
  ultimately show ?case by simp
qed

lemma argmax_dim1_shape:
  "argmax_dim1 P = Inr js \<Longrightarrow> length js = length P \<and> (\<forall>i < length P. js ! i < length (P ! i))"
proof (induction P arbitrary: js)
  case Nil
  then show ?case by simp
next
  case (Cons row rest)
  from Cons.prems obtain j js' where j: "argmax_row row = Inr j"
    and js': "argmax_dim1 rest = Inr js'" and js: "js = j # js'"
    by (auto split: sum.splits)
  from Cons.IH [OF js'] argmax_row_bound [OF j] show ?case
    by (auto simp: js nth_Cons split: nat.splits)
qed

lemma greedy_accept_invariant:
  assumes "distinct (map fst acc)" "distinct (map snd acc)" "snd ` set acc = used"
    and "distinct order" "set order \<inter> fst ` set acc = {}"
  shows "distinct (map fst (greedy_accept bc order used acc))
       \<and> distinct (map snd (greedy_accept bc order used acc))
       \<and> set (greedy_accept bc order used acc) \<subseteq> set acc \<union> {(i, bc ! i) | i. i \<in> set order}"
  using assms
proof (induction bc order used acc rule: greedy_accept.induct)
  case (1 best_cols used_cols aligned_pairs)
  then show ?case by simp
next
  case (2 best_cols i sorted_indices used_cols aligned_pairs)
  show ?case
  proof (cases "best_cols ! i \<in> used_cols")
    case True
    with 2 show ?thesis by auto
  next
    case False
    let ?acc = "aligned_pairs @ [(i, best_cols ! i)]"
    have a: "distinct (map fst ?acc)" using 2 by auto
    have b: "distinct (map snd ?acc)" using 2 False by auto
    have c: "snd ` set ?acc = insert (best_cols ! i) used_cols" using 2 by auto
    have d: "distinct sorted_indices" using 2 by simp
    have e: "set sorted_indices \<inter> fst ` set ?acc = {}" using 2 by auto
    have "distinct (map fst (greedy_accept best_cols sorted_indices (insert (best_cols ! i) used_cols) ?acc))
       \<and> distinct (map snd (greedy_accept best_cols sorted_indices (insert (best_cols ! i) used_cols) ?acc))
       \<and> set (greedy_accept best_cols sorted_indices (insert (best_cols ! i) used_cols) ?acc)
           \<subseteq> set ?acc \<union> {(k, best_cols ! k) | k. k \<in> set sorted_indices}"
      by (rule "2.IH"(1) [OF refl False a b c d e])
    moreover have "set ?acc \<union> {(k, best_cols ! k) | k. k \<in> set sorted_indices}
           \<subseteq> set aligned_pairs \<union> {(k, best_cols ! k) | k. k \<in> set (i # sorted_indices)}"
      by auto
    ultimately show ?thesis using False by (simp add: Let_def) blast
  qed
qed

lemma argsort_descending_perm:
  "set (argsort_descending cs) = {0..<length cs} \<and> distinct (argsort_descending cs)"
  by (simp add: argsort_descending_def)

lemma sorted_map_fst:
  fixes ps :: "(nat \<times> nat) list"
  shows "sorted ps \<Longrightarrow> sorted (map fst ps)"
  by (induction ps) (auto simp: less_eq_prod_def)

lemma distinct_fst_sorted_strict:
  fixes ps :: "(nat \<times> nat) list"
  assumes "distinct (map fst ps)"
  shows "sorted_wrt (<) (map fst (sort ps))"
proof -
  have "sorted (map fst (sort ps))"
    by (rule sorted_map_fst) simp
  moreover have "distinct (map fst (sort ps))"
    using assms by (simp add: distinct_map)
  ultimately show ?thesis by (simp add: strict_sorted_iff)
qed

text \<open>
  C3. For a soft assignment matrix of shape m x r (with r > 0, as every matrix the scorer
  hands over has), the decoder returns a list of (mobile, reference) index pairs in which
  the mobile indices are pairwise different, the reference indices are pairwise
  different, which has at most min m r elements, and which ascends (strictly) in the
  mobile index; each pair indexes into the matrix.
\<close>

theorem decode_alignment_matrix_one_to_one:
  assumes "length P = m" and "\<forall>row \<in> set P. length row = r" and "0 < r"
  shows "\<exists>pairs. decode_alignment_matrix P = Inr pairs
           \<and> distinct (map fst pairs) \<and> distinct (map snd pairs)
           \<and> length pairs \<le> min m r
           \<and> sorted_wrt (<) (map fst pairs)
           \<and> (\<forall>(i, j) \<in> set pairs. i < m \<and> j < r)"
proof -
  have "[] \<notin> set P" using assms by auto
  then obtain bc where bc: "argmax_dim1 P = Inr bc"
    using argmax_dim1_total by blast
  define cs where "cs = map (\<lambda>i. (P ! i) ! (bc ! i)) [0..<length P]"
  define acc where "acc = greedy_accept bc (argsort_descending cs) {} []"
  have dec: "decode_alignment_matrix P = Inr (sort acc)"
    by (simp add: decode_alignment_matrix_def bc acc_def cs_def)
  have inv: "distinct (map fst acc) \<and> distinct (map snd acc)
      \<and> set acc \<subseteq> set [] \<union> {(i, bc ! i) | i. i \<in> set (argsort_descending cs)}"
    unfolding acc_def
    by (rule greedy_accept_invariant) (simp_all add: argsort_descending_perm)
  have rng: "\<forall>(i, j) \<in> set acc. i < m \<and> j < r"
  proof -
    have "\<forall>i < length P. bc ! i < r"
      using argmax_dim1_shape [OF bc] assms(2) by auto
    moreover have "set (argsort_descending cs) = {0..<length P}"
      by (simp add: argsort_descending_perm cs_def)
    ultimately show ?thesis using inv assms(1) by auto
  qed
  have d1: "distinct (map fst (sort acc))" using inv by (simp add: distinct_map)
  have d2: "distinct (map snd (sort acc))" using inv by (simp add: distinct_map)
  have len: "length acc \<le> min m r"
  proof -
    have "card (fst ` set acc) \<le> card {0..<m}"
      by (rule card_mono) (use rng in auto)
    moreover have "card (snd ` set acc) \<le> card {0..<r}"
      by (rule card_mono) (use rng in auto)
    moreover have "card (fst ` set acc) = length acc"
      using inv by (metis distinct_card length_map list.set_map)
    moreover have "card (snd ` set acc) = length acc"
      using inv by (metis distinct_card length_map list.set_map)
    ultimately show ?thesis by simp
  qed
  have "sorted_wrt (<) (map fst (sort acc))"
    using inv by (simp add: distinct_fst_sorted_strict)
  with dec d1 d2 len rng show ?thesis by simp
qed

theorem decode_alignment_matrix_one_to_one_witness:
  "decode_alignment_matrix [[1/10, 9/10], [2/10, 8/10], [7/10, 3/10]] = Inr [(0, 1), (2, 0)]"
proof -
  have "\<exists>pairs. decode_alignment_matrix [[1/10, 9/10], [2/10, 8/10], [7/10, 3/10]] = Inr pairs
           \<and> distinct (map fst pairs) \<and> distinct (map snd pairs)
           \<and> length pairs \<le> min 3 2
           \<and> sorted_wrt (<) (map fst pairs)
           \<and> (\<forall>(i, j) \<in> set pairs. i < 3 \<and> j < 2)"
    by (rule decode_alignment_matrix_one_to_one) simp_all
  moreover have "decode_alignment_matrix [[1/10, 9/10], [2/10, 8/10], [7/10, 3/10]] = Inr [(0, 1), (2, 0)]"
    by (simp add: decode_alignment_matrix_def argmax_row_def argsort_descending_def
        upt_rec [of 0] upt_rec [of 1] upt_rec [of 2] less_eq_prod_def)
  ultimately show ?thesis by simp
qed

subsection \<open>The scale constant\<close>

text \<open>
  C5. \<open>get_d0\<close> is 1.24 times the cube root of L - 15, minus 1.8, for each length
  L above 15, and 0.5 for each L up to 15; at L = 16 it is the constant 1.24 - 1.8,
  which is -0.56: a negative number, with no special case.
\<close>

theorem get_d0_piecewise:
  "(15 < L \<longrightarrow> get_d0 L = 1.24 * root 3 (real_of_int (L - 15)) - 1.8)
   \<and> (L \<le> 15 \<longrightarrow> get_d0 L = 0.5)
   \<and> get_d0 16 = 1.24 - 1.8 \<and> get_d0 16 = - 0.56 \<and> get_d0 16 < 0"
  by (auto simp: get_d0_def root_powr_inverse)

theorem get_d0_piecewise_witness:
  "get_d0 23 = 1.24 * root 3 8 - 1.8 \<and> get_d0 15 = 0.5 \<and> get_d0 16 = - 0.56"
  using get_d0_piecewise [of 23] get_d0_piecewise [of 15] by simp

subsection \<open>The soft correspondence scorer\<close>

lemma map2_same: "map2 f (map g xs) (map h xs) = map (\<lambda>x. f (g x) (h x)) xs"
  by (induction xs) auto

lemma map_upt_nth: "length xs = n \<Longrightarrow> map (\<lambda>i. f (xs ! i)) [0..<n] = map f xs"
  by (rule nth_equalityI) auto

lemma div_rows_spec:
  assumes "rect m r M"
  shows "div_rows ops M (sum_dim1 ops M) = spec_row_normalise ops m r M"
proof (rule nth_equalityI)
  show "length (div_rows ops M (sum_dim1 ops M)) = length (spec_row_normalise ops m r M)"
    using assms by (simp add: div_rows_def sum_dim1_def spec_row_normalise_def rect_def)
next
  fix i assume "i < length (div_rows ops M (sum_dim1 ops M))"
  then have i: "i < m" using assms by (simp add: div_rows_def sum_dim1_def rect_def)
  then have len: "length (M ! i) = r" using assms by (simp add: rect_def)
  let ?den = "t_add ops (t_sum ops (M ! i)) (t_scalar ops sinkhorn_eps)"
  have row: "map (\<lambda>j'. M ! i ! j') [0..<r] = M ! i"
    using map_upt_nth [OF len, of "\<lambda>x. x"] by simp
  have "div_rows ops M (sum_dim1 ops M) ! i = map (\<lambda>x. t_div ops x ?den) (M ! i)"
    using i assms by (simp add: div_rows_def sum_dim1_def rect_def)
  also have "\<dots> = map (\<lambda>j. t_div ops (M ! i ! j) ?den) [0..<r]"
    using map_upt_nth [OF len, of "\<lambda>x. t_div ops x ?den"] by simp
  also have "\<dots> = spec_row_normalise ops m r M ! i"
    using i by (simp add: spec_row_normalise_def row)
  finally show "div_rows ops M (sum_dim1 ops M) ! i = spec_row_normalise ops m r M ! i" .
qed

lemma sum_dim0_spec:
  assumes "rect m r M" "0 < m"
  shows "sum_dim0 ops M = map (\<lambda>j. t_sum ops (map (\<lambda>i. M ! i ! j) [0..<m])) [0..<r]"
proof -
  from assms obtain row rest where M: "M = row # rest" by (cases M) (auto simp: rect_def)
  have r: "length row = r" using assms M by (simp add: rect_def)
  have m: "length M = m" using assms by (simp add: rect_def)
  have col: "map (\<lambda>q. q ! j) M = map (\<lambda>i. M ! i ! j) [0..<m]" for j
    using map_upt_nth [OF m, of "\<lambda>q. q ! j"] by simp
  have "sum_dim0 ops M = map (\<lambda>j. t_sum ops (map (\<lambda>q. q ! j) M)) [0..<r]"
    by (simp add: sum_dim0_def M r)
  then show ?thesis by (simp only: col)
qed

lemma div_cols_spec:
  assumes "rect m r M"
  shows "div_cols ops M (sum_dim0 ops M) = spec_col_normalise ops m r M"
proof (cases "m = 0")
  case True
  then show ?thesis using assms by (simp add: rect_def div_cols_def spec_col_normalise_def)
next
  case False
  then have m: "0 < m" by simp
  show ?thesis
  proof (rule nth_equalityI)
    show "length (div_cols ops M (sum_dim0 ops M)) = length (spec_col_normalise ops m r M)"
      using assms by (simp add: div_cols_def spec_col_normalise_def rect_def)
  next
    fix i assume "i < length (div_cols ops M (sum_dim0 ops M))"
    then have i: "i < m" using assms by (simp add: div_cols_def rect_def)
    then have len: "length (M ! i) = r" using assms by (simp add: rect_def)
    let ?f = "\<lambda>x s. t_div ops x (t_add ops s (t_scalar ops sinkhorn_eps))"
    let ?col = "\<lambda>j. t_sum ops (map (\<lambda>i. M ! i ! j) [0..<m])"
    have "div_cols ops M (sum_dim0 ops M) ! i = map2 ?f (M ! i) (map ?col [0..<r])"
      using i assms by (simp add: div_cols_def sum_dim0_spec [OF assms m] rect_def)
    also have "\<dots> = map2 ?f (map (\<lambda>j. M ! i ! j) [0..<r]) (map ?col [0..<r])"
      using map_upt_nth [OF len, of "\<lambda>x. x"] by simp
    also have "\<dots> = spec_col_normalise ops m r M ! i"
      using i by (simp add: map2_same spec_col_normalise_def)
    finally show "div_cols ops M (sum_dim0 ops M) ! i = spec_col_normalise ops m r M ! i" .
  qed
qed

lemma rect_spec_row: "rect m r (spec_row_normalise ops m r M)"
  by (auto simp: rect_def spec_row_normalise_def)

lemma rect_spec_col: "rect m r (spec_col_normalise ops m r M)"
  by (auto simp: rect_def spec_col_normalise_def)

lemma sinkhorn_loop_spec:
  "rect m r M \<Longrightarrow> sinkhorn_loop ops n M = spec_sinkhorn ops m r n M"
proof (induction n arbitrary: M)
  case 0
  then show ?case by (simp add: spec_sinkhorn_def)
next
  case (Suc n)
  let ?f = "\<lambda>Q. spec_col_normalise ops m r (spec_row_normalise ops m r Q)"
  have step: "div_cols ops (div_rows ops M (sum_dim1 ops M))
                (sum_dim0 ops (div_rows ops M (sum_dim1 ops M))) = ?f M"
    using Suc.prems by (simp add: div_rows_spec div_cols_spec rect_spec_row)
  have "sinkhorn_loop ops (Suc n) M = sinkhorn_loop ops n (?f M)"
    by (simp add: Let_def step)
  also have "\<dots> = spec_sinkhorn ops m r n (?f M)"
    by (rule Suc.IH) (rule rect_spec_col)
  also have "\<dots> = spec_sinkhorn ops m r (Suc n) M"
    unfolding spec_sinkhorn_def using funpow_swap1 [of ?f n M] by simp
  finally show ?case .
qed

lemma rect_spec_sinkhorn: "rect m r M \<Longrightarrow> rect m r (spec_sinkhorn ops m r n M)"
  unfolding spec_sinkhorn_def by (induction n) (simp_all add: rect_spec_col)

lemma reward_matrix_spec:
  "mat_mul_elem ops
     (mat_map (\<lambda>d. t_div ops (t_scalar ops 1)
                      (t_add ops (t_scalar ops 1) (t_square ops (t_div ops d (t_scalar ops d0)))))
        (cdist ops A B))
     (mat_map (\<lambda>d. t_sigmoid ops (t_mul ops (t_neg ops (t_sub ops d (t_scalar ops c))) (t_scalar ops k)))
        (cdist ops A B))
   = spec_reward_matrix ops A B d0 c k"
  by (simp add: mat_mul_elem_def mat_map_def cdist_def spec_reward_matrix_def spec_reward_def
      map2_same comp_def)

lemma rect_reward: "rect (length A) (length B) (spec_reward_matrix ops A B d0 c k)"
  by (auto simp: rect_def spec_reward_matrix_def)

lemma mat_mul_elem_spec:
  assumes "rect m r P" "rect m r R"
  shows "mat_mul_elem ops P R = map (\<lambda>i. map (\<lambda>j. t_mul ops (P ! i ! j) (R ! i ! j)) [0..<r]) [0..<m]"
proof (rule nth_equalityI)
  show "length (mat_mul_elem ops P R)
      = length (map (\<lambda>i. map (\<lambda>j. t_mul ops (P ! i ! j) (R ! i ! j)) [0..<r]) [0..<m])"
    using assms by (simp add: mat_mul_elem_def rect_def)
next
  fix i assume "i < length (mat_mul_elem ops P R)"
  then have i: "i < m" using assms by (simp add: mat_mul_elem_def rect_def)
  have lp: "length (P ! i) = r" and lr: "length (R ! i) = r"
    using assms i by (simp_all add: rect_def)
  have "mat_mul_elem ops P R ! i = map2 (t_mul ops) (P ! i) (R ! i)"
    using assms i by (simp add: mat_mul_elem_def rect_def)
  also have "\<dots> = map (\<lambda>j. t_mul ops (P ! i ! j) (R ! i ! j)) [0..<r]"
    by (rule nth_equalityI) (simp_all add: lp lr)
  finally show "mat_mul_elem ops P R ! i
      = map (\<lambda>i. map (\<lambda>j. t_mul ops (P ! i ! j) (R ! i ! j)) [0..<r]) [0..<m] ! i"
    using i by simp
qed

text \<open>
  C2. For each pair of coordinate sets and each choice of cutoff c, steepness k,
  sharpness g and iteration count n, the scorer returns the matrix P that n Sinkhorn
  rounds make of exp (g * reward), where the reward of the pair (i, j) at distance d is
  (1 / (1 + (d / d0)^2)) * sigmoid (- (d - c) * k) with d0 the scale constant of the
  reference length, and one round divides each row by its sum plus the epsilon and then
  each column by its sum plus the same epsilon; the score it returns is the sum of the
  entries of P times the rewards, divided by the reference length. This holds in each
  arithmetic of the tensor elements, the one of float32 with its infinities and NaN
  among them.
\<close>

theorem get_sinkhorn_alignment_score_spec:
  "get_sinkhorn_alignment_score ops A B len_a len_b c k g n =
     (spec_score ops A B (get_d0 len_b) c k
        (spec_assignment ops A B (get_d0 len_b) c k g (nat n)) (real_of_int len_b),
      spec_assignment ops A B (get_d0 len_b) c k g (nat n))"
proof -
  define d0 where "d0 = get_d0 len_b"
  define R where "R = spec_reward_matrix ops A B d0 c k"
  define M where "M = mat_map (\<lambda>x. t_exp ops (t_mul ops (t_scalar ops g) x)) R"
  define Q where "Q = spec_assignment ops A B d0 c k g (nat n)"
  have rR: "rect (length A) (length B) R"
    unfolding R_def by (rule rect_reward)
  have rM: "rect (length A) (length B) M"
    using rR by (simp add: rect_def mat_map_def M_def)
  have Q: "sinkhorn_iterations ops M n = Q"
    unfolding sinkhorn_iterations_def Q_def spec_assignment_def
    using sinkhorn_loop_spec [OF rM] by (simp add: mat_map_def M_def R_def)
  have rQ: "rect (length A) (length B) Q"
    unfolding Q_def spec_assignment_def
    using rect_spec_sinkhorn [OF rM] by (simp add: mat_map_def M_def R_def)
  have sc: "t_div ops (mat_sum ops (mat_mul_elem ops Q R)) (t_scalar ops (real_of_int len_b))
      = spec_score ops A B d0 c k Q (real_of_int len_b)"
    using mat_mul_elem_spec [OF rQ rR] by (simp add: spec_score_def mat_sum_def R_def)
  have "get_sinkhorn_alignment_score ops A B len_a len_b c k g n
      = (t_div ops (mat_sum ops (mat_mul_elem ops (sinkhorn_iterations ops M n) R))
           (t_scalar ops (real_of_int len_b)),
         sinkhorn_iterations ops M n)"
    unfolding get_sinkhorn_alignment_score_def Let_def reward_matrix_spec M_def R_def d0_def
    by (rule refl)
  also have "\<dots> = (spec_score ops A B d0 c k Q (real_of_int len_b), Q)"
    unfolding Q sc by (rule refl)
  finally show ?thesis unfolding Q_def d0_def .
qed

text \<open>
  The scorer over the reals on one residue against itself, with cutoff 0, steepness 2,
  sharpness 0 and one Sinkhorn round: the reward is 1/2, the matrix before the round
  is 1, and the round divides it twice.
\<close>

lemma get_sinkhorn_alignment_score_example:
  "get_sinkhorn_alignment_score exact_ops [(0, 0, 0)] [(0, 0, 0)] 1 1 0 2 0 1
     = (1 / 2 * (10 ^ 16 / (10 ^ 16 + 10 ^ 8 + 1)), [[10 ^ 16 / (10 ^ 16 + 10 ^ 8 + 1)]])"
  by (simp add: get_sinkhorn_alignment_score_def get_d0_def cdist_def mat_map_def mat_mul_elem_def
      mat_sum_def sinkhorn_iterations_def sum_dim1_def sum_dim0_def div_rows_def div_cols_def
      sinkhorn_eps_def exact_ops_def euclid_def sigmoid_def Let_def)

subsection \<open>Reading PDB files\<close>

lemmas str_ev = strip_def rstrip_def py_isspace_def slice_def index_def startswith_def
lemmas flt_ev = decimal_float_def unsigned_decimal_def digit_value_def
lemmas rec_ev = record_N_def record_CA_def record_CB_altB_def

lemma replicate_numeral: "replicate (numeral k) x = x # replicate (pred_numeral k) x"
  by (simp add: numeral_eq_Suc)


lemma parse_line_full_Skip:
  "parse_line pf chain_id False seen line = Inr Skip \<Longrightarrow> \<not> full_atom_record chain_id line"
  by (auto simp: parse_line_def full_atom_record_def index_def
      split: if_splits sum.splits bool.splits)

lemma parse_line_full_Keep:
  "parse_line pf chain_id False seen line = Inr (Keep c uid) \<Longrightarrow>
     full_atom_record chain_id line \<and> uid = None \<and> 16 < length line"
  by (auto simp: parse_line_def full_atom_record_def index_def
      split: if_splits sum.splits bool.splits)

lemma parse_lines_full:
  "parse_lines pf chain_id False lines seen acc = Inr p \<Longrightarrow>
     atom_lines p = atom_lines acc @ filter (full_atom_record chain_id) lines"
proof (induction lines arbitrary: seen acc)
  case Nil
  then show ?case by simp
next
  case (Cons line rest)
  show ?case
  proof (cases "parse_line pf chain_id False seen line")
    case (Inl e)
    with Cons.prems show ?thesis by simp
  next
    case (Inr a)
    show ?thesis
    proof (cases a)
      case Skip
      with Inr Cons.prems have "parse_lines pf chain_id False rest seen acc = Inr p" by simp
      from Cons.IH [OF this] parse_line_full_Skip [of pf chain_id seen line] Inr Skip
      show ?thesis by simp
    next
      case (Keep c uid)
      from parse_line_full_Keep [of pf chain_id seen line c uid] Inr Keep
      have k: "full_atom_record chain_id line" and u: "uid = None" by simp_all
      let ?acc = "\<lparr>coords = coords acc @ [c], atom_lines = atom_lines acc @ [line],
             sequence = sequence acc @ [aa_get (slice line 17 20)]\<rparr>"
      from Inr Keep u Cons.prems have "parse_lines pf chain_id False rest seen ?acc = Inr p"
        by simp
      from Cons.IH [OF this] k show ?thesis by simp
    qed
  qed
qed

text \<open>
  C9. For each call of \<open>parse_pdb\<close> with \<open>c_alpha_only\<close> false that returns a
  structure, the records it keeps are the atom records of the chain asked for whose
  alternate-location marker is blank or \<open>A\<close>, each of them (no residue is reduced to
  one atom), in the order of the file: a record with another marker is skipped in this
  mode too.
\<close>

theorem parse_pdb_full_atom_alt_loc:
  assumes "fs file_path = Some lines"
    and "parse_pdb pyfloat fs file_path chain_id False = Inr (out, Some p)"
  shows "atom_lines p = filter (full_atom_record chain_id) lines
       \<and> (\<forall>line \<in> set (atom_lines p). line ! 16 \<in> {CHR '' '', CHR ''A''})"
proof -
  from assms have "parse_lines pyfloat chain_id False lines {}
      \<lparr>coords = [], atom_lines = [], sequence = []\<rparr> = Inr p"
    by (auto simp: parse_pdb_def split: sum.splits if_splits)
  from parse_lines_full [OF this]
  have "atom_lines p = filter (full_atom_record chain_id) lines" by simp
  then show ?thesis by (auto simp: full_atom_record_def)
qed

lemma parse_example:
  "parse_pdb decimal_float [''m.pdb'' \<mapsto> [record_N, record_CA, record_CB_altB]] ''m.pdb'' None False
  = Inr ([], Some \<lparr>coords = [(11.104, 6.134, -6.504), (12.56, 6, -6.1)],
                    atom_lines = [record_N, record_CA], sequence = ''AA''\<rparr>)"
  by (simp add: parse_pdb_def rec_ev parse_line_def read_coords_def chain_given_def
      aa_get_def AA_3_TO_1_def str_ev flt_ev)

theorem parse_pdb_full_atom_alt_loc_witness:
  "filter (full_atom_record None) [record_N, record_CA, record_CB_altB] = [record_N, record_CA]
   \<and> record_CB_altB ! 16 = CHR ''B''"
proof -
  have fs: "[''m.pdb'' \<mapsto> [record_N, record_CA, record_CB_altB]] ''m.pdb''
      = Some [record_N, record_CA, record_CB_altB]" by simp
  from parse_pdb_full_atom_alt_loc [OF fs parse_example]
  have "filter (full_atom_record None) [record_N, record_CA, record_CB_altB] = [record_N, record_CA]"
    by simp
  moreover have "record_CB_altB ! 16 = CHR ''B''" by (simp add: record_CB_altB_def)
  ultimately show ?thesis by simp
qed

subsection \<open>Writing PDB files\<close>

lemma digits_numeral:
  "digits (numeral k) = (if (numeral k :: nat) < 10 then [''0123456789'' ! numeral k]
               else digits (numeral k div 10) @ [''0123456789'' ! (numeral k mod 10)])"
  "digits 0 = ''0''" "digits 1 = ''1''" "digits (Suc 0) = ''1''"
  by (subst digits.simps, simp)+

lemmas fmt_ev = format_8_3f_def round_half_even_def zfill3_def replicate_numeral digits_numeral

lemma length_digits_pos: "0 < length (digits n)"
  by (induction n rule: digits.induct) (subst digits.simps, simp)

lemma length_digits: "0 < k \<Longrightarrow> n < 10 ^ k \<Longrightarrow> length (digits n) \<le> k"
proof (induction n arbitrary: k rule: digits.induct)
  case (1 n)
  show ?case
  proof (cases "n < 10")
    case True
    then show ?thesis using "1.prems" by (subst digits.simps) simp
  next
    case False
    then obtain k' where k: "k = Suc k'" and k': "0 < k'"
      using "1.prems" by (cases k; cases "k - 1") auto
    have "n div 10 < 10 ^ k'" using "1.prems" k by (simp add: less_mult_imp_div_less mult.commute)
    from "1.IH" [OF False k' this] False show ?thesis
      by (subst digits.simps) (simp add: k)
  qed
qed

lemma round_half_even_bounds: "\<lfloor>x\<rfloor> \<le> round_half_even x \<and> round_half_even x \<le> \<lfloor>x\<rfloor> + 1"
  by (simp add: round_half_even_def Let_def)

lemma round_half_even_error: "\<bar>real_of_int (round_half_even x) - x\<bar> \<le> 1 / 2"
  unfolding round_half_even_def Let_def by (auto simp: abs_if) linarith+

lemma round_half_even_le: "0 \<le> x \<Longrightarrow> x \<le> of_int m \<Longrightarrow> 0 \<le> round_half_even x \<and> round_half_even x \<le> m"
proof -
  assume a: "0 \<le> x" "x \<le> of_int m"
  have "round_half_even x \<le> m"
  proof (cases "x = of_int m")
    case True
    then show ?thesis by (simp add: round_half_even_def)
  next
    case False
    with a have "x < of_int m" by simp
    then have "\<lfloor>x\<rfloor> < m" by (simp add: floor_less_iff)
    with round_half_even_bounds [of x] show ?thesis by linarith
  qed
  moreover have "0 \<le> \<lfloor>x\<rfloor>" using a by simp
  ultimately show ?thesis using round_half_even_bounds [of x] by linarith
qed

lemma length_zfill3: "length s \<le> 3 \<Longrightarrow> length (zfill3 s) = 3"
  by (simp add: zfill3_def)

lemma length_format_8_3f:
  assumes "- 999 \<le> x" "x \<le> 9999"
  shows "length (format_8_3f x) = 8"
proof -
  define n where "n = nat (round_half_even (\<bar>x\<bar> * 1000))"
  define body where "body = (if x < 0 then ''-'' else []) @ digits (n div 1000) @ ''.''
                   @ zfill3 (digits (n mod 1000))"
  have f: "format_8_3f x = replicate (8 - length body) CHR '' '' @ body"
    by (simp add: format_8_3f_def n_def body_def Let_def)
  have z: "length (zfill3 (digits (n mod 1000))) = 3"
    by (rule length_zfill3) (rule length_digits, simp_all)
  have "length body \<le> 8"
  proof (cases "x < 0")
    case True
    then have "\<bar>x\<bar> * 1000 \<le> of_int 999000" using assms by simp
    then have "round_half_even (\<bar>x\<bar> * 1000) \<le> 999000"
      using round_half_even_le [of "\<bar>x\<bar> * 1000" 999000] by simp
    then have "n div 1000 < 10 ^ 3" by (simp add: n_def)
    then have "length (digits (n div 1000)) \<le> 3" by (intro length_digits) simp_all
    then show ?thesis using True z by (simp add: body_def)
  next
    case False
    then have "\<bar>x\<bar> * 1000 \<le> of_int 9999000" using assms by simp
    then have "round_half_even (\<bar>x\<bar> * 1000) \<le> 9999000"
      using round_half_even_le [of "\<bar>x\<bar> * 1000" 9999000] by simp
    then have "n div 1000 < 10 ^ 4" by (simp add: n_def)
    then have "length (digits (n div 1000)) \<le> 4" by (intro length_digits) simp_all
    then show ?thesis using False z by (simp add: body_def)
  qed
  then show ?thesis by (simp add: f)
qed

lemma rstrip_snoc_space: "py_isspace c \<Longrightarrow> rstrip (s @ [c]) = rstrip s"
  by (simp add: rstrip_def)

lemma py_isspace_newline: "py_isspace (CHR 0x0A)"
  by (simp add: py_isspace_def)

lemma digit_value_nth: "d < 10 \<Longrightarrow> digit_value (''0123456789'' ! d) = Some d"
proof -
  assume "d < 10"
  then have "d = 0 \<or> d = 1 \<or> d = 2 \<or> d = 3 \<or> d = 4 \<or> d = 5 \<or> d = 6 \<or> d = 7 \<or> d = 8 \<or> d = 9"
    by arith
  then show ?thesis by (auto simp: digit_value_def)
qed

lemma digit_char_plain:
  "d < 10 \<Longrightarrow> ''0123456789'' ! d \<noteq> CHR ''.'' \<and> \<not> py_isspace (''0123456789'' ! d)
     \<and> ''0123456789'' ! d \<noteq> CHR ''-'' \<and> ''0123456789'' ! d \<noteq> CHR ''+''"
proof -
  assume "d < 10"
  then have "d = 0 \<or> d = 1 \<or> d = 2 \<or> d = 3 \<or> d = 4 \<or> d = 5 \<or> d = 6 \<or> d = 7 \<or> d = 8 \<or> d = 9"
    by arith
  then show ?thesis by (auto simp: py_isspace_def)
qed

lemma plain_digit_nth: "d < 10 \<Longrightarrow> plain_digit (''0123456789'' ! d)"
  using digit_char_plain [of d] digit_value_nth [of d] by (simp add: plain_digit_def)

lemma digits_plain: "c \<in> set (digits n) \<Longrightarrow> plain_digit c"
proof (induction n rule: digits.induct)
  case (1 n)
  show ?case
  proof (cases "n < 10")
    case True
    with "1.prems" show ?thesis by (subst (asm) digits.simps) (simp add: plain_digit_nth)
  next
    case False
    have "n mod 10 < 10" by simp
    with "1.prems" "1.IH" [OF False] False plain_digit_nth [of "n mod 10"]
    show ?thesis by (subst (asm) digits.simps) auto
  qed
qed

lemma digits_value_append:
  "digits_value acc (xs @ ys) = (case digits_value acc xs of None \<Rightarrow> None | Some a \<Rightarrow> digits_value a ys)"
  by (induction xs arbitrary: acc) (auto split: option.splits)

lemma digits_value_digits: "digits_value 0 (digits n) = Some n"
proof (induction n rule: digits.induct)
  case (1 n)
  show ?case
  proof (cases "n < 10")
    case True
    then show ?thesis by (subst digits.simps) (simp add: digit_value_nth)
  next
    case False
    have "digits_value 0 (digits (n div 10) @ [''0123456789'' ! (n mod 10)]) = Some n"
      using "1.IH" [OF False] by (simp add: digits_value_append digit_value_nth)
    with False show ?thesis by (subst digits.simps) simp
  qed
qed

lemma digits_value_zeros: "digits_value 0 (replicate k CHR ''0'' @ s) = digits_value 0 s"
  by (induction k) (simp_all add: digit_value_def)

lemma zfill3_plain: "c \<in> set (zfill3 (digits k)) \<Longrightarrow> plain_digit c"
proof -
  have "plain_digit CHR ''0''" by (simp add: plain_digit_def py_isspace_def digit_value_def)
  moreover assume "c \<in> set (zfill3 (digits k))"
  ultimately show ?thesis using digits_plain [of c k] by (auto simp: zfill3_def)
qed

lemma unsigned_decimal_format:
  assumes "k < 1000"
  shows "unsigned_decimal (digits m @ ''.'' @ zfill3 (digits k)) = Some (real m + real k / 1000)"
proof -
  let ?s = "digits m @ ''.'' @ zfill3 (digits k)"
  have nd: "\<forall>c \<in> set (digits m). c \<noteq> CHR ''.''"
    using digits_plain by (auto simp: plain_digit_def)
  have tw: "takeWhile (\<lambda>c. c \<noteq> CHR ''.'') ?s = digits m"
    using nd by (simp add: takeWhile_tail)
  have dw: "dropWhile (\<lambda>c. c \<noteq> CHR ''.'') ?s = ''.'' @ zfill3 (digits k)"
    using nd by (simp add: dropWhile_append)
  have l3: "length (zfill3 (digits k)) = 3"
    by (rule length_zfill3) (rule length_digits, use assms in simp_all)
  have ne: "digits m \<noteq> []" using length_digits_pos [of m] by auto
  have v: "digits_value 0 (zfill3 (digits k)) = Some k"
    by (simp add: zfill3_def digits_value_zeros digits_value_digits)
  show ?thesis
    unfolding unsigned_decimal_def tw dw Let_def
    by (simp add: ne digits_value_digits v l3)
qed

lemma strip_padded:
  assumes "body \<noteq> []" "\<forall>c \<in> set body. \<not> py_isspace c"
  shows "strip (replicate k CHR '' '' @ body) = body"
proof -
  have sp: "py_isspace CHR '' ''" by (simp add: py_isspace_def)
  obtain ys y where b: "body = ys @ [y]" using assms(1) by (cases body rule: rev_cases) auto
  then have y: "\<not> py_isspace y" using assms(2) by simp
  have r: "rstrip (replicate k CHR '' '' @ body) = replicate k CHR '' '' @ body"
    unfolding rstrip_def b using y by simp
  obtain z zs where c: "body = z # zs" using assms(1) by (cases body) auto
  then have z: "\<not> py_isspace z" using assms(2) by simp
  have "dropWhile py_isspace (replicate k CHR '' '' @ body) = body"
    unfolding c using z sp by (simp add: dropWhile_append)
  then show ?thesis by (simp add: strip_def r)
qed

lemma decimal_float_format:
  "\<exists>v. decimal_float (format_8_3f x) = Some v \<and> \<bar>v - x\<bar> \<le> 1 / 2000"
proof -
  define n where "n = nat (round_half_even (\<bar>x\<bar> * 1000))"
  define num where "num = digits (n div 1000) @ ''.'' @ zfill3 (digits (n mod 1000))"
  define body where "body = (if x < 0 then ''-'' else []) @ num"
  have f: "format_8_3f x = replicate (8 - length body) CHR '' '' @ body"
    by (simp add: format_8_3f_def n_def body_def num_def Let_def)
  have dot: "\<not> py_isspace CHR ''.''" and minus: "\<not> py_isspace CHR ''-''"
    by (simp_all add: py_isspace_def)
  have plain: "\<forall>c \<in> set num. \<not> py_isspace c \<and> c \<noteq> CHR ''-'' \<and> c \<noteq> CHR ''+''"
  proof
    fix c assume "c \<in> set num"
    then consider "c \<in> set (digits (n div 1000))" | "c = CHR ''.''"
      | "c \<in> set (zfill3 (digits (n mod 1000)))"
      by (auto simp: num_def)
    then show "\<not> py_isspace c \<and> c \<noteq> CHR ''-'' \<and> c \<noteq> CHR ''+''"
    proof cases
      case 1
      then show ?thesis using digits_plain [of c] by (simp add: plain_digit_def)
    next
      case 2
      then show ?thesis using dot by simp
    next
      case 3
      then show ?thesis using zfill3_plain [of c] by (simp add: plain_digit_def)
    qed
  qed
  have ne: "num \<noteq> []" by (simp add: num_def)
  have bs: "body \<noteq> [] \<and> (\<forall>c \<in> set body. \<not> py_isspace c)"
    using plain ne minus by (auto simp: body_def)
  have s: "strip (format_8_3f x) = body"
    unfolding f using bs by (intro strip_padded) simp_all
  have u: "unsigned_decimal num = Some (real (n div 1000) + real (n mod 1000) / 1000)"
    unfolding num_def by (rule unsigned_decimal_format) simp
  have val: "real (n div 1000) + real (n mod 1000) / 1000 = real n / 1000"
  proof -
    have "real n = real (1000 * (n div 1000) + n mod 1000)" by simp
    also have "\<dots> = 1000 * real (n div 1000) + real (n mod 1000)"
      by (simp only: of_nat_add of_nat_mult of_nat_numeral)
    finally show ?thesis by simp
  qed
  have r0: "0 \<le> round_half_even (\<bar>x\<bar> * 1000)"
  proof -
    have "0 \<le> \<lfloor>\<bar>x\<bar> * 1000\<rfloor>" by simp
    with round_half_even_bounds [of "\<bar>x\<bar> * 1000"] show ?thesis by linarith
  qed
  then have rn: "real n = real_of_int (round_half_even (\<bar>x\<bar> * 1000))" by (simp add: n_def)
  have err: "\<bar>real n / 1000 - \<bar>x\<bar>\<bar> \<le> 1 / 2000"
    using round_half_even_error [of "\<bar>x\<bar> * 1000"] unfolding rn by (simp add: abs_if field_simps split: if_splits)
  show ?thesis
  proof (cases "x < 0")
    case True
    then have "decimal_float (format_8_3f x) = Some (- (real n / 1000))"
      by (simp add: decimal_float_def s body_def u val)
    moreover have "\<bar>- (real n / 1000) - x\<bar> \<le> 1 / 2000" using err True by (simp add: abs_if split: if_splits)
    ultimately show ?thesis by blast
  next
    case False
    obtain c cs where cc: "num = c # cs" using ne by (cases num) auto
    then have "c \<noteq> CHR ''-'' \<and> c \<noteq> CHR ''+''" using plain by auto
    with False have "decimal_float (format_8_3f x) = Some (real n / 1000)"
      using u val by (simp add: decimal_float_def s body_def cc)
    moreover have "\<bar>real n / 1000 - x\<bar> \<le> 1 / 2000" using err False by (simp add: abs_if split: if_splits)
    ultimately show ?thesis by blast
  qed
qed

text \<open>
  C7 (amended). The writer keeps the first 30 characters of an atom record, puts the three
  coordinates in their format after them, and ends the record with what followed column
  54, its trailing whitespace removed, and one newline. For coordinates from -999 to 9999
  (each then takes 8 characters) the rest begins at column 54 again; if the record ended
  in one newline with no other whitespace before it, every character outside the
  coordinate columns is the one of the record. The coordinates read off the written
  record are within half a thousandth of the ones written.
\<close>

theorem write_pdb_line_frame:
  assumes "30 \<le> length line"
    and "- 999 \<le> x \<and> x \<le> 9999" and "- 999 \<le> y \<and> y \<le> 9999" and "- 999 \<le> z \<and> z \<le> 9999"
  shows "take 30 (write_pdb_line line (x, y, z)) = take 30 line
       \<and> slice (write_pdb_line line (x, y, z)) 30 54 = format_8_3f x @ format_8_3f y @ format_8_3f z
       \<and> drop 54 (write_pdb_line line (x, y, z)) = rstrip (drop 54 line) @ [CHR 0x0A]
       \<and> (rstrip (drop 54 body) = drop 54 body \<and> line = body @ [CHR 0x0A] \<and> 54 \<le> length body
            \<longrightarrow> drop 54 (write_pdb_line line (x, y, z)) = drop 54 line)
       \<and> (\<exists>x' y' z'. read_coords decimal_float (write_pdb_line line (x, y, z)) = Inr (x', y', z')
            \<and> \<bar>x' - x\<bar> \<le> 1 / 2000 \<and> \<bar>y' - y\<bar> \<le> 1 / 2000 \<and> \<bar>z' - z\<bar> \<le> 1 / 2000)"
proof -
  have lx: "length (format_8_3f x) = 8" and ly: "length (format_8_3f y) = 8"
    and lz: "length (format_8_3f z) = 8"
    using assms by (simp_all add: length_format_8_3f)
  have l30: "length (take 30 line) = 30" using assms(1) by simp
  let ?c = "format_8_3f x @ format_8_3f y @ format_8_3f z"
  let ?out = "write_pdb_line line (x, y, z)"
  have lc: "length ?c = 24" by (simp add: lx ly lz)
  have w: "?out = take 30 line @ ?c @ rstrip (drop 54 line) @ [CHR 0x0A]"
    by (simp add: write_pdb_line_def slice_def)
  have a: "take 30 ?out = take 30 line"
    unfolding w using l30 by simp
  have b: "slice ?out 30 54 = ?c"
    unfolding w slice_def using l30 lc by simp
  have c: "drop 54 ?out = rstrip (drop 54 line) @ [CHR 0x0A]"
    unfolding w using l30 lc by simp
  have d: "rstrip (drop 54 body) = drop 54 body \<and> line = body @ [CHR 0x0A] \<and> 54 \<le> length body
            \<longrightarrow> drop 54 ?out = drop 54 line"
    unfolding c using rstrip_snoc_space [OF py_isspace_newline, of "drop 54 body"] by auto
  have sx: "slice ?out 30 38 = format_8_3f x"
    unfolding w slice_def using l30 lx by simp
  have sy: "slice ?out 38 46 = format_8_3f y"
    unfolding w slice_def using l30 lx ly by simp
  have sz: "slice ?out 46 54 = format_8_3f z"
    unfolding w slice_def using l30 lx ly lz by simp
  obtain x' where x': "decimal_float (format_8_3f x) = Some x'" "\<bar>x' - x\<bar> \<le> 1 / 2000"
    using decimal_float_format [of x] by blast
  obtain y' where y': "decimal_float (format_8_3f y) = Some y'" "\<bar>y' - y\<bar> \<le> 1 / 2000"
    using decimal_float_format [of y] by blast
  obtain z' where z': "decimal_float (format_8_3f z) = Some z'" "\<bar>z' - z\<bar> \<le> 1 / 2000"
    using decimal_float_format [of z] by blast
  have "read_coords decimal_float ?out = Inr (x', y', z')"
    unfolding read_coords_def sx sy sz by (simp add: x' y' z')
  with x' y' z' have e: "\<exists>x' y' z'. read_coords decimal_float ?out = Inr (x', y', z')
            \<and> \<bar>x' - x\<bar> \<le> 1 / 2000 \<and> \<bar>y' - y\<bar> \<le> 1 / 2000 \<and> \<bar>z' - z\<bar> \<le> 1 / 2000"
    by blast
  from a b c d e show ?thesis by blast
qed

theorem write_pdb_line_frame_witness:
  "take 30 (write_pdb_line record_CA (12.56, 6, -6.1)) = take 30 record_CA
   \<and> drop 54 (write_pdb_line record_CA (12.56, 6, -6.1)) = drop 54 record_CA"
proof -
  define body where "body = butlast record_CA"
  have 1: "30 \<le> length record_CA" by (simp add: record_CA_def)
  have 2: "rstrip (drop 54 body) = drop 54 body \<and> record_CA = body @ [CHR 0x0A] \<and> 54 \<le> length body"
    by (simp add: body_def record_CA_def rstrip_def py_isspace_def)
  have bx: "- 999 \<le> (12.56::real) \<and> (12.56::real) \<le> 9999"
    and bry: "- 999 \<le> (6::real) \<and> (6::real) \<le> 9999"
    and bz: "- 999 \<le> (-6.1::real) \<and> (-6.1::real) \<le> 9999"
    by simp_all
  note T = write_pdb_line_frame [of record_CA "12.56" 6 "-6.1" body, OF 1 bx bry bz]
  from T have "take 30 (write_pdb_line record_CA (12.56, 6, -6.1)) = take 30 record_CA"
    by blast
  moreover from T 2 have "drop 54 (write_pdb_line record_CA (12.56, 6, -6.1)) = drop 54 record_CA"
    by blast
  ultimately show ?thesis by blast
qed

text \<open>
  The claim as worded fails on a record with blanks before its newline (the usual
  80-column record): read and written back with its own coordinates, it loses them.
\<close>

lemma write_example:
  "write_pdb_line record_N (11.104, 6.134, -6.504) =
    ''ATOM      1  N   ALA A   1      11.104   6.134  -6.504  1.00  0.00           N'' @ [CHR 0x0A]"
proof -
  have "format_8_3f 11.104 = ''  11.104''" "format_8_3f 6.134 = ''   6.134''"
    "format_8_3f (-6.504) = ''  -6.504''"
    by (simp_all add: fmt_ev)
  moreover have "slice record_N 0 30 = ''ATOM      1  N   ALA A   1    ''"
    by (simp add: record_N_def slice_def)
  moreover have "rstrip (drop 54 record_N) = ''  1.00  0.00           N''"
    by (simp add: record_N_def rstrip_def py_isspace_def)
  ultimately show ?thesis by (simp add: write_pdb_line_def)
qed


theorem write_pdb_line_byte_identical_counterexample:
  "read_coords decimal_float record_N = Inr (11.104, 6.134, -6.504)
   \<and> drop 54 (write_pdb_line record_N (11.104, 6.134, -6.504)) \<noteq> drop 54 record_N"
proof -
  have "read_coords decimal_float record_N = Inr (11.104, 6.134, -6.504)"
    by (simp add: read_coords_def record_N_def str_ev flt_ev)
  moreover have "drop 54 (write_pdb_line record_N (11.104, 6.134, -6.504)) \<noteq> drop 54 record_N"
    unfolding write_example by (simp add: record_N_def)
  ultimately show ?thesis by simp
qed

subsection \<open>The run\<close>

lemma parse_pdb_not_found:
  "fs file_path = None \<Longrightarrow>
     parse_pdb pf fs file_path chain_id ca = Inr ([''Error: PDB file not found at '' @ file_path], None)"
  by (simp add: parse_pdb_def)

lemma parse_pdb_empty:
  "fs file_path = Some lines \<Longrightarrow>
   parse_lines pf chain_id ca lines {} \<lparr>coords = [], atom_lines = [], sequence = []\<rparr> = Inr p \<Longrightarrow>
   coords p = [] \<Longrightarrow>
     parse_pdb pf fs file_path chain_id ca
       = Inr ([''Error: No matching C-alpha atoms found in '' @ file_path @ '' for specified chain.''], None)"
  by (simp add: parse_pdb_def)

lemma main_returns:
  assumes "parse_pdb (be_float be) fs (mobile a) (mobile_chain a) True = Inr (msgs_mob, mob)"
    and "parse_pdb (be_float be) fs (reference a) (reference_chain a) True = Inr (msgs_ref, ref)"
    and "mob = None \<or> ref = None"
  shows "main be a fs = (fs, Banner # map Message (msgs_mob @ msgs_ref), None)"
  using assms by (auto simp: main_def split: option.splits)

lemma main_mobile_missing:
  assumes "parse_pdb (be_float be) fs (mobile a) (mobile_chain a) True = Inr (msgs_mob, None)"
  shows "fst (main be a fs) = fs"
  using assms by (auto simp: main_def split: option.splits sum.splits prod.splits)

text \<open>
  C8. For a path that names no file, and for a file of which no atom passes the filters,
  \<open>parse_pdb\<close> prints the condition and returns the empty result; no exception
  leaves it. When one of the two structures comes back empty, \<open>main\<close> returns: the
  files are the ones it started with (no structure file, no matrix file), and no
  exception ends the run.
\<close>

theorem main_aborts_without_output:
  "(fs file_path = None \<longrightarrow>
      parse_pdb pf fs file_path chain_id ca
        = Inr ([''Error: PDB file not found at '' @ file_path], None))
   \<and> (fs file_path = Some lines
        \<and> parse_lines pf chain_id ca lines {} \<lparr>coords = [], atom_lines = [], sequence = []\<rparr> = Inr p
        \<and> coords p = [] \<longrightarrow>
      parse_pdb pf fs file_path chain_id ca
        = Inr ([''Error: No matching C-alpha atoms found in '' @ file_path
                  @ '' for specified chain.''], None))
   \<and> (parse_pdb (be_float be) fs (mobile a) (mobile_chain a) True = Inr (msgs_mob, mob)
        \<and> parse_pdb (be_float be) fs (reference a) (reference_chain a) True = Inr (msgs_ref, ref)
        \<and> (mob = None \<or> ref = None) \<longrightarrow>
      main be a fs = (fs, Banner # map Message (msgs_mob @ msgs_ref), None))"
  using parse_pdb_not_found [of fs file_path pf chain_id ca]
    parse_pdb_empty [of fs file_path lines pf chain_id ca p]
    main_returns [of be fs a msgs_mob mob msgs_ref ref]
  by blast


lemma parse_ca_example:
  "parse_pdb decimal_float example_files ''m.pdb'' None True
     = Inr ([], Some \<lparr>coords = [(12.56, 6, - 6.1)], atom_lines = [record_CA], sequence = ''A''\<rparr>)"
  by (simp add: parse_pdb_def example_files_def rec_ev parse_line_def read_coords_def
      chain_given_def aa_get_def AA_3_TO_1_def str_ev flt_ev)

theorem main_aborts_without_output_witness:
  "main still_backend example_args example_files
     = (example_files, [Banner, Message ''Error: PDB file not found at r.pdb''], None)"
proof -
  have m: "parse_pdb (be_float still_backend) example_files (mobile example_args)
             (mobile_chain example_args) True
           = Inr ([], Some \<lparr>coords = [(12.56, 6, - 6.1)], atom_lines = [record_CA], sequence = ''A''\<rparr>)"
    using parse_ca_example by (simp add: still_backend_def example_args_def)
  have nf: "example_files ''r.pdb'' = None" by (simp add: example_files_def)
  note T = main_aborts_without_output [where fs = example_files and file_path = "''r.pdb''"
      and pf = decimal_float and chain_id = None and ca = True and be = still_backend
      and a = example_args and msgs_mob = "[]"
      and mob = "Some \<lparr>coords = [(12.56, 6, - 6.1)], atom_lines = [record_CA], sequence = ''A''\<rparr>"
      and msgs_ref = "[''Error: PDB file not found at r.pdb'']" and ref = None]
  have r: "parse_pdb (be_float still_backend) example_files (reference example_args)
             (reference_chain example_args) True
           = Inr ([''Error: PDB file not found at r.pdb''], None)"
    using T nf by (simp add: still_backend_def example_args_def)
  from T m r show ?thesis by simp
qed

lemmas vec_ev = vec_add_def vec_sub_def vec_scale_def dot_def zero_vec_def mat_vec_def vec_mat_def
  mat_mul_def transpose3_def identity3_def sum_rows_def mean_dim0_def sub_rows_def add_rows_def
  matmul_rows_def transform_def

lemma parse_lines_lengths:
  "parse_lines pf chain_id ca lines seen acc = Inr p \<Longrightarrow>
   length (coords acc) = length (atom_lines acc) \<Longrightarrow> length (coords p) = length (atom_lines p)"
proof (induction lines arbitrary: seen acc)
  case Nil
  then show ?case by simp
next
  case (Cons line rest)
  then show ?case
    by (auto split: sum.splits line_action.splits)
qed

lemma parse_pdb_lengths:
  assumes "parse_pdb pf fs file_path chain_id ca = Inr (msgs, Some p)"
  shows "length (coords p) = length (atom_lines p) \<and> msgs = []"
proof -
  from assms obtain lines where
    "parse_lines pf chain_id ca lines {} \<lparr>coords = [], atom_lines = [], sequence = []\<rparr> = Inr p"
    and "msgs = []"
    by (auto simp: parse_pdb_def split: option.splits sum.splits if_splits)
  with parse_lines_lengths [of pf chain_id ca lines "{}" _ p] show ?thesis by simp
qed

lemma write_pdb_lines_enough:
  "length lines \<le> length cs \<Longrightarrow> write_pdb_lines cs lines = (map2 write_pdb_line lines cs, None)"
  by (induction cs lines rule: write_pdb_lines.induct) auto

lemma length_final_full_coords_out:
  "length (final_full_coords_out X R u c) = length X"
  by (simp add: final_full_coords_out_def Let_def add_rows_def transform_def matmul_rows_def sub_rows_def)

lemma write_structure_ok:
  assumes "output_file a = Some opath" "opath \<noteq> []"
    and "parse_pdb (be_float be) fs (mobile a) (mobile_chain a) False = Inr (msgs, Some full)"
  shows "write_structure be a fs f =
     (fs(opath \<mapsto> map2 write_pdb_line (atom_lines full)
          (final_full_coords_out (coords full) (R_final f) (u_final f) (ref_center f))),
      [Structure_header, Writing_structure opath, Structure_written (reference a) opath], None)"
proof -
  from parse_pdb_lengths [OF assms(3)]
  have l: "length (coords full) = length (atom_lines full)" and m: "msgs = []" by simp_all
  have "write_pdb_lines (final_full_coords_out (coords full) (R_final f) (u_final f) (ref_center f))
            (atom_lines full)
        = (map2 write_pdb_line (atom_lines full)
             (final_full_coords_out (coords full) (R_final f) (u_final f) (ref_center f)), None)"
    by (rule write_pdb_lines_enough) (simp add: length_final_full_coords_out l)
  then show ?thesis using assms m by (simp add: write_structure_def write_pdb_def)
qed

lemma parse_full_example:
  "parse_pdb decimal_float example_files ''m.pdb'' None False
  = Inr ([], Some \<lparr>coords = [(11.104, 6.134, -6.504), (12.56, 6, -6.1)],
                    atom_lines = [record_N, record_CA], sequence = ''AA''\<rparr>)"
  by (simp add: parse_pdb_def example_files_def rec_ev parse_line_def read_coords_def chain_given_def
      aa_get_def AA_3_TO_1_def str_ev flt_ev)

lemma example_coords_out:
  "final_full_coords_out [(11.104, 6.134, -6.504), (12.56, 6, -6.1)] identity3 zero_vec (12.56, 6, - 6.1)
     = [(11.832, 6.067, - 6.302), (13.288, 5.933, - 5.898)]"
  by (simp add: final_full_coords_out_def vec_ev)

lemma example_spec_coords_out:
  "spec_full_coords_out [(11.104, 6.134, -6.504), (12.56, 6, -6.1)] (12.56, 6, - 6.1) identity3 zero_vec
       (12.56, 6, - 6.1)
     = [(11.104, 6.134, -6.504), (12.56, 6, -6.1)]"
  by (simp add: spec_full_coords_out_def vec_ev)

lemma example_written_N:
  "write_pdb_line record_N (11.832, 6.067, - 6.302) =
    ''ATOM      1  N   ALA A   1      11.832   6.067  -6.302  1.00  0.00           N'' @ [CHR 0x0A]"
proof -
  have "format_8_3f 11.832 = ''  11.832''" "format_8_3f 6.067 = ''   6.067''"
    "format_8_3f (-6.302) = ''  -6.302''"
    by (simp_all add: fmt_ev)
  moreover have "slice record_N 0 30 = ''ATOM      1  N   ALA A   1    ''"
    by (simp add: record_N_def slice_def)
  moreover have "rstrip (drop 54 record_N) = ''  1.00  0.00           N''"
    by (simp add: record_N_def rstrip_def py_isspace_def)
  ultimately show ?thesis by (simp add: write_pdb_line_def)
qed

lemma example_written_CA:
  "write_pdb_line record_CA (13.288, 5.933, - 5.898) =
    ''ATOM      2  CA  ALA A   1      13.288   5.933  -5.898  1.00  0.00           C'' @ [CHR 0x0A]"
proof -
  have "format_8_3f 13.288 = ''  13.288''" "format_8_3f 5.933 = ''   5.933''"
    "format_8_3f (-5.898) = ''  -5.898''"
    by (simp_all add: fmt_ev)
  moreover have "slice record_CA 0 30 = ''ATOM      2  CA  ALA A   1    ''"
    by (simp add: record_CA_def slice_def)
  moreover have "rstrip (drop 54 record_CA) = ''  1.00  0.00           C''"
    by (simp add: record_CA_def rstrip_def py_isspace_def)
  ultimately show ?thesis by (simp add: write_pdb_line_def)
qed

text \<open>
  C4. The claim: the writer reloads all atoms of the mobile structure, centres them by
  the centroid that the search used, applies the final transform and adds the centroid
  of the reference. The code centres by the centroid of the reloaded atoms instead.
  On a residue of two atoms (N and CA), with the identity as the final transform and
  the structure as its own reference, the claim gives back the coordinates of the file;
  the code writes both atoms moved by 0.728, -0.067 and 0.202.
\<close>

theorem structure_writer_recentres_by_full_atom_centroid:
  "parse_pdb decimal_float example_files ''m.pdb'' None True
     = Inr ([], Some \<lparr>coords = [(12.56, 6, - 6.1)], atom_lines = [record_CA], sequence = ''A''\<rparr>)
   \<and> mean_dim0 [(12.56, 6, - 6.1)] = mobile_center example_fit
   \<and> fst (write_structure still_backend example_args example_files example_fit) ''out.pdb''
       = Some [''ATOM      1  N   ALA A   1      11.832   6.067  -6.302  1.00  0.00           N'' @ [CHR 0x0A],
               ''ATOM      2  CA  ALA A   1      13.288   5.933  -5.898  1.00  0.00           C'' @ [CHR 0x0A]]
   \<and> spec_full_coords_out [(11.104, 6.134, -6.504), (12.56, 6, -6.1)] (mobile_center example_fit)
        (R_final example_fit) (u_final example_fit) (ref_center example_fit)
       = [(11.104, 6.134, -6.504), (12.56, 6, -6.1)]"
proof -
  have p: "parse_pdb (be_float still_backend) example_files (mobile example_args)
      (mobile_chain example_args) False
      = Inr ([], Some \<lparr>coords = [(11.104, 6.134, -6.504), (12.56, 6, -6.1)],
                    atom_lines = [record_N, record_CA], sequence = ''AA''\<rparr>)"
    using parse_full_example by (simp add: still_backend_def example_args_def)
  have o: "output_file example_args = Some ''out.pdb''" by (simp add: example_args_def)
  have w: "fst (write_structure still_backend example_args example_files example_fit) ''out.pdb''
       = Some [''ATOM      1  N   ALA A   1      11.832   6.067  -6.302  1.00  0.00           N'' @ [CHR 0x0A],
               ''ATOM      2  CA  ALA A   1      13.288   5.933  -5.898  1.00  0.00           C'' @ [CHR 0x0A]]"
  proof -
    have ne: "''out.pdb'' \<noteq> []" by simp
    have f: "R_final example_fit = identity3" "u_final example_fit = zero_vec"
      "ref_center example_fit = (12.56, 6, - 6.1)"
      by (simp_all add: example_fit_def)
    show ?thesis
      unfolding write_structure_ok [OF o ne p, of example_fit] f
      using example_coords_out example_written_N example_written_CA by simp
  qed
  have m: "mean_dim0 [(12.56, 6, - 6.1)] = mobile_center example_fit"
    by (simp add: example_fit_def vec_ev)
  have s: "spec_full_coords_out [(11.104, 6.134, -6.504), (12.56, 6, -6.1)] (mobile_center example_fit)
        (R_final example_fit) (u_final example_fit) (ref_center example_fit)
       = [(11.104, 6.134, -6.504), (12.56, 6, -6.1)]"
    using example_spec_coords_out by (simp add: example_fit_def)
  from parse_ca_example m w s show ?thesis by blast
qed

subsection \<open>The Kabsch refiner\<close>

lemmas la_defs = vec_add_def vec_sub_def vec_scale_def dot_def zero_vec_def mat_vec_def vec_mat_def
  mat_mul_def transpose3_def identity3_def det3_def zero_mat_def mat_add_def mat_scale_def
  trace3_def diag3_def outer_def negate_last_column_def

lemma mat_mul_assoc: "mat_mul (mat_mul A B) C = mat_mul A (mat_mul B C)"
  by (simp add: la_defs case_prod_beta algebra_simps)

lemma mat_mul_identity_left: "mat_mul identity3 A = A"
  by (simp add: la_defs case_prod_beta prod_eq_iff)

lemma mat_mul_identity_right: "mat_mul A identity3 = A"
  by (simp add: la_defs case_prod_beta prod_eq_iff)

lemma transpose3_mat_mul: "transpose3 (mat_mul A B) = mat_mul (transpose3 B) (transpose3 A)"
  by (simp add: la_defs case_prod_beta algebra_simps)

lemma transpose3_transpose3: "transpose3 (transpose3 A) = A"
  by (simp add: la_defs case_prod_beta prod_eq_iff)

lemma trace3_mat_mul_commute: "trace3 (mat_mul A B) = trace3 (mat_mul B A)"
  by (simp add: la_defs case_prod_beta algebra_simps)

lemma det3_transpose3: "det3 (transpose3 A) = det3 A"
  by (simp add: la_defs case_prod_beta algebra_simps)

lemma det3_mat_mul: "det3 (mat_mul A B) = det3 A * det3 B"
  by (simp add: la_defs case_prod_beta algebra_simps)

lemma det3_identity3: "det3 identity3 = 1"
  by (simp add: la_defs)


lemma orthogonal3_mat_mul:
  assumes "orthogonal3 A" "orthogonal3 B"
  shows "orthogonal3 (mat_mul A B)"
proof -
  have "mat_mul (transpose3 (mat_mul A B)) (mat_mul A B)
      = mat_mul (transpose3 B) (mat_mul (mat_mul (transpose3 A) A) B)"
    by (simp only: transpose3_mat_mul mat_mul_assoc)
  also have "\<dots> = identity3"
    using assms by (simp add: orthogonal3_def mat_mul_identity_left)
  finally have 1: "mat_mul (transpose3 (mat_mul A B)) (mat_mul A B) = identity3" .
  have "mat_mul (mat_mul A B) (transpose3 (mat_mul A B))
      = mat_mul A (mat_mul (mat_mul B (transpose3 B)) (transpose3 A))"
    by (simp only: transpose3_mat_mul mat_mul_assoc)
  also have "\<dots> = identity3"
    using assms by (simp add: orthogonal3_def mat_mul_identity_left)
  finally show ?thesis using 1 by (simp add: orthogonal3_def)
qed

lemma orthogonal3_transpose3: "orthogonal3 A \<Longrightarrow> orthogonal3 (transpose3 A)"
  by (simp add: orthogonal3_def transpose3_transpose3)

lemma orthogonal3_flip: "orthogonal3 (diag3 (1, 1, - 1))"
  by (simp add: orthogonal3_def la_defs)

lemma negate_last_column_mat_mul: "negate_last_column V = mat_mul V (diag3 (1, 1, - 1))"
  by (simp add: la_defs case_prod_beta prod_eq_iff)

lemma orthogonal3_entries:
  assumes "orthogonal3 ((a, b, c), (d, e, f), (g, h, i))"
  shows "a * a + d * d + g * g = 1" "b * b + e * e + h * h = 1" "c * c + f * f + i * i = 1"
    "a * b + d * e + g * h = 0" "a * c + d * f + g * i = 0" "b * c + e * f + h * i = 0"
    "a * a + b * b + c * c = 1" "d * d + e * e + f * f = 1" "g * g + h * h + i * i = 1"
  using assms by (simp_all add: orthogonal3_def la_defs algebra_simps)

lemma orthogonal3_diagonal_le:
  assumes "orthogonal3 ((a, b, c), (d, e, f), (g, h, i))"
  shows "\<bar>a\<bar> \<le> 1 \<and> \<bar>e\<bar> \<le> 1 \<and> \<bar>i\<bar> \<le> 1"
proof -
  note o = orthogonal3_entries [OF assms]
  have "a * a \<le> 1" using o(1) zero_le_square [of d] zero_le_square [of g] by linarith
  moreover have "e * e \<le> 1" using o(2) zero_le_square [of b] zero_le_square [of h] by linarith
  moreover have "i * i \<le> 1" using o(3) zero_le_square [of c] zero_le_square [of f] by linarith
  ultimately show ?thesis
    by (simp add: abs_le_square_iff [of _ 1, simplified] power2_eq_square)
qed

lemma orthogonal3_det_sq:
  assumes "orthogonal3 Q"
  shows "det3 Q * det3 Q = 1"
proof -
  have "det3 (mat_mul (transpose3 Q) Q) = det3 Q * det3 Q"
    by (simp add: det3_mat_mul det3_transpose3)
  then show ?thesis using assms by (simp add: orthogonal3_def det3_identity3)
qed

lemma orthogonal3_det_neg_trace:
  assumes "orthogonal3 Q" "det3 Q < 0"
  shows "trace3 Q \<le> 1"
proof -
  obtain a b c d e f g h i where Q: "Q = ((a, b, c), (d, e, f), (g, h, i))"
    by (metis prod_cases3)
  note o = orthogonal3_entries [OF assms(1) [unfolded Q]]
  define dt where "dt = det3 Q"
  have "dt * dt = 1" using orthogonal3_det_sq [OF assms(1)] by (simp add: dt_def)
  then have "(dt - 1) * (dt + 1) = 0" by (simp add: algebra_simps)
  then have dt: "dt = - 1" using assms(2) by (auto simp: dt_def)
  have dtx: "dt = a * (e * i - f * h) - b * (d * i - f * g) + c * (d * h - e * g)"
    by (simp add: dt_def Q det3_def)
  have "(e * i - f * h) * (a * a + d * d + g * g) - (d * i - f * g) * (a * b + d * e + g * h)
          + (d * h - e * g) * (a * c + d * f + g * i) = dt * a"
    unfolding dtx by (simp add: algebra_simps)
  then have c00: "e * i - f * h = - a" using o dt by simp
  have "- (b * i - c * h) * (a * b + d * e + g * h) + (a * i - c * g) * (b * b + e * e + h * h)
          - (a * h - b * g) * (b * c + e * f + h * i) = dt * e"
    unfolding dtx by (simp add: algebra_simps)
  then have c11: "a * i - c * g = - e" using o dt by simp
  have "(b * f - c * e) * (a * c + d * f + g * i) - (a * f - c * d) * (b * c + e * f + h * i)
          + (a * e - b * d) * (c * c + f * f + i * i) = dt * i"
    unfolding dtx by (simp add: algebra_simps)
  then have c22: "a * e - b * d = - i" using o dt by simp
  define t where "t = a + e + i"
  have "(b - d) * (b - d) + (c - g) * (c - g) + (f - h) * (f - h)
      = (a * a + d * d + g * g) + (b * b + e * e + h * h) + (c * c + f * f + i * i)
        - (a * a + e * e + i * i) - 2 * (b * d + c * g + f * h)"
    by (simp add: algebra_simps)
  also have "\<dots> = 3 - (a * a + e * e + i * i) - 2 * (b * d + c * g + f * h)"
    using o by simp
  also have "b * d + c * g + f * h = (a * e + i) + (a * i + e) + (e * i + a)"
    using c00 c11 c22 by (simp add: algebra_simps)
  also have "3 - (a * a + e * e + i * i) - 2 * ((a * e + i) + (a * i + e) + (e * i + a))
      = (3 + t) * (1 - t)"
    by (simp add: t_def algebra_simps)
  finally have "(3 + t) * (1 - t) \<ge> 0"
    using zero_le_square [of "b - d"] zero_le_square [of "c - g"] zero_le_square [of "f - h"]
    by linarith
  moreover have t3: "t \<ge> - 3"
    using orthogonal3_diagonal_le [OF assms(1) [unfolded Q]] by (simp add: t_def abs_le_iff)
  ultimately have "t \<le> 1"
  proof -
    have False if "1 < t"
    proof -
      from that t3 have "0 < 3 + t" "1 - t < 0" by simp_all
      then have "(3 + t) * (1 - t) < 0" by (rule mult_pos_neg)
      with \<open>(3 + t) * (1 - t) \<ge> 0\<close> show False by simp
    qed
    then show ?thesis by fastforce
  qed
  then show ?thesis by (simp add: Q trace3_def t_def)
qed


lemma trace3_mat_mul_diag3:
  "trace3 (mat_mul ((a, b, c), (d, e, f), (g, h, i)) (diag3 (s0, s1, s2))) = a * s0 + e * s1 + i * s2"
  by (simp add: la_defs)

lemma diag3_flip_sq: "k * k = 1 \<Longrightarrow> mat_mul (transpose3 (diag3 (1, 1, k))) (diag3 (1, 1, k)) = identity3"
  by (simp add: la_defs)

lemma kabsch_rotation_trace:
  assumes svd: "svd_of H (U, (s0, s1, s2), V)"
    and k: "k = (if det3 (mat_mul V (transpose3 U)) < 0 then - 1 else 1)"
    and R: "R = mat_mul (mat_mul V (diag3 (1, 1, k))) (transpose3 U)"
  shows "trace3 H \<le> trace3 (mat_mul R H) \<and> mat_mul (transpose3 R) R = identity3"
proof -
  let ?S = "diag3 (s0, s1, s2)" and ?D = "diag3 (1, 1, k)"
  from svd have H: "H = mat_mul (mat_mul U ?S) (transpose3 V)"
    and oU: "orthogonal3 U" and oV: "orthogonal3 V"
    and s: "s0 \<ge> s1" "s1 \<ge> s2" "s2 \<ge> 0"
    by (simp_all add: svd_of_def)
  have UU: "mat_mul (transpose3 U) U = identity3" "mat_mul U (transpose3 U) = identity3"
    and VV: "mat_mul (transpose3 V) V = identity3" "mat_mul V (transpose3 V) = identity3"
    using oU oV by (simp_all add: orthogonal3_def)
  have kk: "k * k = 1" using k by simp
  define Q where "Q = mat_mul (transpose3 V) U"
  have oQ: "orthogonal3 Q"
    unfolding Q_def by (intro orthogonal3_mat_mul orthogonal3_transpose3 oU oV)
  obtain a b c d e f g h i where Qc: "Q = ((a, b, c), (d, e, f), (g, h, i))"
    by (metis prod_cases3)
  have trH: "trace3 H = a * s0 + e * s1 + i * s2"
  proof -
    have "trace3 H = trace3 (mat_mul (transpose3 V) (mat_mul U ?S))"
      unfolding H by (rule trace3_mat_mul_commute)
    also have "\<dots> = trace3 (mat_mul Q ?S)"
      by (simp only: Q_def mat_mul_assoc)
    finally show ?thesis by (simp add: Qc trace3_mat_mul_diag3)
  qed
  have RH: "mat_mul R H = mat_mul (mat_mul V (mat_mul ?D ?S)) (transpose3 V)"
  proof -
    have "mat_mul R H
        = mat_mul V (mat_mul ?D (mat_mul (mat_mul (transpose3 U) U) (mat_mul ?S (transpose3 V))))"
      unfolding R H by (simp only: mat_mul_assoc)
    also have "\<dots> = mat_mul (mat_mul V (mat_mul ?D ?S)) (transpose3 V)"
      by (simp only: UU mat_mul_identity_left mat_mul_assoc)
    finally show ?thesis .
  qed
  have trRH: "trace3 (mat_mul R H) = s0 + s1 + k * s2"
  proof -
    have "trace3 (mat_mul R H) = trace3 (mat_mul (transpose3 V) (mat_mul V (mat_mul ?D ?S)))"
      unfolding RH by (rule trace3_mat_mul_commute)
    also have "\<dots> = trace3 (mat_mul (mat_mul (transpose3 V) V) (mat_mul ?D ?S))"
      by (simp only: mat_mul_assoc)
    also have "\<dots> = trace3 (mat_mul ?D ?S)"
      by (simp only: VV mat_mul_identity_left)
    finally show ?thesis by (simp add: la_defs)
  qed
  have orth: "mat_mul (transpose3 R) R = identity3"
  proof -
    have "mat_mul (transpose3 R) R
        = mat_mul U (mat_mul (transpose3 ?D) (mat_mul (mat_mul (transpose3 V) V) (mat_mul ?D (transpose3 U))))"
      unfolding R by (simp only: transpose3_mat_mul transpose3_transpose3 mat_mul_assoc)
    also have "\<dots> = mat_mul U (mat_mul (mat_mul (transpose3 ?D) ?D) (transpose3 U))"
      by (simp only: VV mat_mul_identity_left mat_mul_assoc)
    also have "\<dots> = identity3"
      by (simp only: diag3_flip_sq [OF kk] mat_mul_identity_left UU)
    finally show ?thesis .
  qed
  have dle: "a \<le> 1" "e \<le> 1" "i \<le> 1"
    using orthogonal3_diagonal_le [OF oQ [unfolded Qc]] by (simp_all add: abs_le_iff)
  have "a * s0 + e * s1 + i * s2 \<le> s0 + s1 + k * s2"
  proof (cases "det3 (mat_mul V (transpose3 U)) < 0")
    case False
    then have k1: "k = 1" using k by simp
    have "0 \<le> (1 - a) * s0" "0 \<le> (1 - e) * s1" "0 \<le> (1 - i) * s2"
      using dle s by (simp_all add: mult_nonneg_nonneg)
    then show ?thesis unfolding k1 by (simp add: algebra_simps)
  next
    case True
    then have k1: "k = - 1" using k by simp
    have "det3 Q = det3 (mat_mul V (transpose3 U))"
      by (simp add: Q_def det3_mat_mul det3_transpose3)
    with True have "trace3 Q \<le> 1"
      by (intro orthogonal3_det_neg_trace oQ) simp
    then have tr: "a + e + i \<le> 1" by (simp add: Qc trace3_def)
    have "0 \<le> (1 - a) * (s0 - s2)" "0 \<le> (1 - e) * (s1 - s2)" "0 \<le> s2 * (1 - (a + e + i))"
      using dle s tr by (simp_all add: mult_nonneg_nonneg)
    then have "0 \<le> (1 - a) * (s0 - s2) + (1 - e) * (s1 - s2) + s2 * (1 - (a + e + i))"
      by linarith
    also have "\<dots> = s0 + s1 - s2 - (a * s0 + e * s1 + i * s2)"
      by (simp add: algebra_simps)
    finally show ?thesis unfolding k1 by simp
  qed
  with trH trRH orth show ?thesis by simp
qed


lemma trace3_mat_mul_add:
  "trace3 (mat_mul R (mat_add X Y)) = trace3 (mat_mul R X) + trace3 (mat_mul R Y)"
  by (simp add: la_defs case_prod_beta algebra_simps)

lemma trace3_mat_mul_outer: "trace3 (mat_mul R (outer a b)) = dot (mat_vec R a) b"
  by (simp add: la_defs case_prod_beta algebra_simps)

lemma trace3_mat_mul_zero: "trace3 (mat_mul R zero_mat) = 0"
  by (simp add: la_defs case_prod_beta)

lemma trace3_cross_covariance:
  "length A = length B \<Longrightarrow>
     trace3 (mat_mul R (cross_covariance A B)) = sum_list (map2 (\<lambda>a b. dot (mat_vec R a) b) A B)"
  by (induction A B rule: list_induct2)
     (simp_all add: cross_covariance_def trace3_mat_mul_zero trace3_mat_mul_add trace3_mat_mul_outer)

lemma mat_vec_identity3: "mat_vec identity3 x = x"
  by (simp add: la_defs case_prod_beta prod_eq_iff)

lemma sum_rows_sub_rows:
  "sum_rows (sub_rows X c) = vec_sub (sum_rows X) (vec_scale (real (length X)) c)"
  by (induction X) (simp_all add: sum_rows_def sub_rows_def la_defs case_prod_beta algebra_simps)

lemma sum_rows_centred:
  assumes "X \<noteq> []"
  shows "sum_rows (sub_rows X (mean_dim0 X)) = zero_vec"
proof -
  have "real (length X) \<noteq> 0" using assms by simp
  then show ?thesis
    by (simp add: sum_rows_sub_rows mean_dim0_def la_defs case_prod_beta)
qed

lemma dot_isometry:
  assumes "mat_mul (transpose3 R) R = identity3"
  shows "dot (mat_vec R x) (mat_vec R x) = dot x x"
proof -
  have "dot (mat_vec R x) (mat_vec R x) = dot x (mat_vec (mat_mul (transpose3 R) R) x)"
    by (simp add: la_defs case_prod_beta algebra_simps)
  then show ?thesis by (simp add: assms mat_vec_identity3)
qed

lemma kabsch_pointwise:
  assumes "mat_mul (transpose3 R) R = identity3"
  shows "dot (vec_sub a b) (vec_sub a b)
         - dot (vec_sub (vec_add (mat_vec R a) (vec_sub cB (mat_vec R cA))) b)
               (vec_sub (vec_add (mat_vec R a) (vec_sub cB (mat_vec R cA))) b)
       = 2 * (dot (mat_vec R (vec_sub a cA)) (vec_sub b cB) - dot (vec_sub a cA) (vec_sub b cB))
         + 2 * dot (vec_sub cA cB) (vec_sub (vec_sub a cA) (vec_sub b cB))
         + dot (vec_sub cA cB) (vec_sub cA cB)"
proof -
  let ?a = "vec_sub a cA" and ?b = "vec_sub b cB"
  have e1: "vec_sub (vec_add (mat_vec R a) (vec_sub cB (mat_vec R cA))) b = vec_sub (mat_vec R ?a) ?b"
    by (simp add: la_defs case_prod_beta algebra_simps)
  have e2: "dot (vec_sub (mat_vec R ?a) ?b) (vec_sub (mat_vec R ?a) ?b)
      = dot (mat_vec R ?a) (mat_vec R ?a) - 2 * dot (mat_vec R ?a) ?b + dot ?b ?b"
    by (simp add: vec_sub_def dot_def case_prod_beta algebra_simps)
  have e3: "dot (mat_vec R ?a) (mat_vec R ?a) = dot ?a ?a"
    by (rule dot_isometry [OF assms])
  have e4: "dot (vec_sub a b) (vec_sub a b)
      = dot ?a ?a - 2 * dot ?a ?b + dot ?b ?b
        + 2 * dot (vec_sub cA cB) (vec_sub ?a ?b) + dot (vec_sub cA cB) (vec_sub cA cB)"
    by (simp add: vec_sub_def dot_def case_prod_beta algebra_simps)
  show ?thesis unfolding e1 e2 e3 e4 by simp
qed

lemma dot_sum_rows:
  "length A = length B \<Longrightarrow>
     sum_list (map2 (\<lambda>a b. dot c (vec_sub a b)) A B) = dot c (vec_sub (sum_rows A) (sum_rows B))"
  by (induction A B rule: list_induct2)
     (simp_all add: sum_rows_def la_defs case_prod_beta algebra_simps)

lemma kabsch_sum:
  assumes "mat_mul (transpose3 R) R = identity3" and "length A = length B"
  shows "sum_list (sq_dists A B)
         - sum_list (sq_dists (superpose R (vec_sub cB (mat_vec R cA)) A) B)
       = 2 * (sum_list (map2 (\<lambda>a b. dot (mat_vec R a) b) (sub_rows A cA) (sub_rows B cB))
              - sum_list (map2 (\<lambda>a b. dot a b) (sub_rows A cA) (sub_rows B cB)))
         + 2 * sum_list (map2 (\<lambda>a b. dot (vec_sub cA cB) (vec_sub a b)) (sub_rows A cA) (sub_rows B cB))
         + real (length A) * dot (vec_sub cA cB) (vec_sub cA cB)"
  using assms(2)
proof (induction A B rule: list_induct2)
  case Nil
  then show ?case by (simp add: sq_dists_def superpose_def sub_rows_def)
next
  case (Cons a A b B)
  from Cons.IH kabsch_pointwise [OF assms(1), of a b cB cA]
  show ?case
    by (simp add: sq_dists_def superpose_def sub_rows_def algebra_simps)
qed


lemma length_sq_dists_superpose:
  "length A = length B \<Longrightarrow> length (sq_dists (superpose R t A) B) = length A \<and> length (sq_dists A B) = length A"
  by (simp add: sq_dists_def superpose_def)

lemma det3_diag3_flip: "det3 (diag3 (1, 1, k)) = k"
  by (simp add: la_defs)

text \<open>
  C6. For two point sets A and B of one size, the Kabsch refiner returns a rotation R
  (R transposed times R is the identity, of determinant 1) and a translation t, and the
  root-mean-square distance of R A + t to B is at most the one of A to B. The arithmetic
  is that of the reals, and \<open>torch.svd\<close> is taken to return a singular value
  decomposition of the cross covariance. The sets are not empty, as in the run, which
  calls the refiner for at least one aligned pair only.
\<close>

theorem kabsch_rmsd_le_identity:
  assumes "length A = length B" and "A \<noteq> []"
    and "svd_of (cross_covariance (sub_rows A (mean_dim0 A)) (sub_rows B (mean_dim0 B)))
           (svd (cross_covariance (sub_rows A (mean_dim0 A)) (sub_rows B (mean_dim0 B))))"
  shows "\<exists>R t. kabsch svd A B = Inr (R, t)
           \<and> mat_mul (transpose3 R) R = identity3 \<and> det3 R = 1
           \<and> rmsd (superpose R t A) B \<le> rmsd A B"
proof -
  define cA where "cA = mean_dim0 A"
  define cB where "cB = mean_dim0 B"
  define H where "H = cross_covariance (sub_rows A cA) (sub_rows B cB)"
  obtain U s0 s1 s2 V where usv: "svd H = (U, (s0, s1, s2), V)"
    by (metis prod_cases3)
  define k :: real where "k = (if det3 (mat_mul V (transpose3 U)) < 0 then - 1 else 1)"
  define R where "R = mat_mul (mat_mul V (diag3 (1, 1, k))) (transpose3 U)"
  define t where "t = vec_sub cB (mat_vec R cA)"
  have sv: "svd_of H (U, (s0, s1, s2), V)"
    using assms(3) usv by (simp add: H_def cA_def cB_def)
  have Rk: "R = (if det3 (mat_mul V (transpose3 U)) < 0
                 then mat_mul (negate_last_column V) (transpose3 U) else mat_mul V (transpose3 U))"
  proof (cases "det3 (mat_mul V (transpose3 U)) < 0")
    case True
    then show ?thesis by (simp add: R_def k_def negate_last_column_mat_mul)
  next
    case False
    have "diag3 (1, 1, 1) = identity3" by (simp add: la_defs)
    with False show ?thesis by (simp add: R_def k_def mat_mul_identity_right)
  qed
  have kab: "kabsch svd A B = Inr (R, t)"
    using assms(1) usv Rk
    by (simp add: kabsch_def Let_def H_def [symmetric] cA_def [symmetric] cB_def [symmetric] t_def)
  from kabsch_rotation_trace [OF sv k_def R_def]
  have tr: "trace3 H \<le> trace3 (mat_mul R H)" and orth: "mat_mul (transpose3 R) R = identity3"
    by simp_all
  have det: "det3 R = 1"
  proof -
    from sv have oU: "orthogonal3 U" and oV: "orthogonal3 V" by (simp_all add: svd_of_def)
    define r where "r = det3 (mat_mul V (transpose3 U))"
    have "orthogonal3 (mat_mul V (transpose3 U))"
      by (intro orthogonal3_mat_mul orthogonal3_transpose3 oU oV)
    then have "r * r = 1" unfolding r_def by (rule orthogonal3_det_sq)
    then have "(r - 1) * (r + 1) = 0" by (simp add: algebra_simps)
    then have r: "r = 1 \<or> r = - 1" by auto
    have "det3 R = k * r"
      by (simp add: R_def r_def det3_mat_mul det3_diag3_flip det3_transpose3)
    with r show ?thesis by (auto simp: k_def r_def [symmetric])
  qed
  have len: "length (sub_rows A cA) = length (sub_rows B cB)"
    using assms(1) by (simp add: sub_rows_def)
  have t1: "trace3 (mat_mul R H) = sum_list (map2 (\<lambda>a b. dot (mat_vec R a) b) (sub_rows A cA) (sub_rows B cB))"
    unfolding H_def by (rule trace3_cross_covariance [OF len])
  have t2: "trace3 H = sum_list (map2 (\<lambda>a b. dot a b) (sub_rows A cA) (sub_rows B cB))"
    using trace3_cross_covariance [OF len, of identity3]
    by (simp add: H_def mat_mul_identity_left mat_vec_identity3)
  have B_ne: "B \<noteq> []" using assms by auto
  have z: "sum_list (map2 (\<lambda>a b. dot (vec_sub cA cB) (vec_sub a b)) (sub_rows A cA) (sub_rows B cB)) = 0"
    unfolding dot_sum_rows [OF len]
    by (simp add: cA_def cB_def sum_rows_centred [OF assms(2)] sum_rows_centred [OF B_ne] la_defs)
  define off where "off = real (length A) * dot (vec_sub cA cB) (vec_sub cA cB)"
  have nn: "0 \<le> off"
    by (simp add: off_def dot_def vec_sub_def case_prod_beta)
  have "sum_list (sq_dists A B) - sum_list (sq_dists (superpose R t A) B)
      = 2 * (trace3 (mat_mul R H) - trace3 H) + off"
    unfolding t_def off_def kabsch_sum [OF orth assms(1), of cB cA] t1 t2 z by simp
  moreover have "0 \<le> 2 * (trace3 (mat_mul R H) - trace3 H) + off"
    using tr nn by simp
  ultimately have "0 \<le> sum_list (sq_dists A B) - sum_list (sq_dists (superpose R t A) B)"
    by (simp only:)
  then have le: "sum_list (sq_dists (superpose R t A) B) \<le> sum_list (sq_dists A B)"
    by simp
  have "rmsd (superpose R t A) B \<le> rmsd A B"
    unfolding rmsd_def mean_list_def
    using le length_sq_dists_superpose [OF assms(1), of R t]
    by (simp add: divide_right_mono)
  with kab orth det show ?thesis by blast
qed

theorem kabsch_rmsd_le_identity_witness:
  "\<exists>R t. kabsch quarter_turn_svd quarter_turn_A quarter_turn_B = Inr (R, t)
           \<and> mat_mul (transpose3 R) R = identity3 \<and> det3 R = 1
           \<and> rmsd (superpose R t quarter_turn_A) quarter_turn_B \<le> rmsd quarter_turn_A quarter_turn_B"
proof (rule kabsch_rmsd_le_identity)
  show "length quarter_turn_A = length quarter_turn_B"
    by (simp add: quarter_turn_A_def quarter_turn_B_def)
  show "quarter_turn_A \<noteq> []" by (simp add: quarter_turn_A_def)
  show "svd_of (cross_covariance (sub_rows quarter_turn_A (mean_dim0 quarter_turn_A))
                  (sub_rows quarter_turn_B (mean_dim0 quarter_turn_B)))
           (quarter_turn_svd (cross_covariance (sub_rows quarter_turn_A (mean_dim0 quarter_turn_A))
                  (sub_rows quarter_turn_B (mean_dim0 quarter_turn_B))))"
    by (simp add: quarter_turn_A_def quarter_turn_B_def quarter_turn_svd_def svd_of_def
        orthogonal3_def cross_covariance_def sub_rows_def mean_dim0_def sum_rows_def la_defs)
qed

lemma quarter_turn_kabsch:
  "kabsch quarter_turn_svd quarter_turn_A quarter_turn_B
     = Inr (((0, 1, 0), (1, 0, 0), (0, 0, - 1)), (0, 0, 0))"
  by (simp add: kabsch_def quarter_turn_A_def quarter_turn_B_def quarter_turn_svd_def
        cross_covariance_def sub_rows_def mean_dim0_def sum_rows_def la_defs)

subsection \<open>The decoded alignment of a run\<close>

text \<open>
  The decoder accepts the first row it visits, so it gives at least one pair for a
  matrix with a row; the matrix a run decodes has one row for each residue of the
  mobile structure, which is not empty. So no run prints \<open>Found 0 aligned pairs\<close>: the
  test \<open>aligned_len > 0\<close> before the metrics block holds in each run that reaches it.
\<close>

lemma greedy_accept_keeps:
  "set acc \<subseteq> set (greedy_accept bc order used acc)"
  by (induction bc order used acc rule: greedy_accept.induct) (auto simp: Let_def)

lemma greedy_accept_first:
  "order \<noteq> [] \<Longrightarrow> greedy_accept bc order {} [] \<noteq> []"
proof (cases order)
  case Nil
  then show "order \<noteq> [] \<Longrightarrow> ?thesis" by simp
next
  case (Cons i rest)
  have "set [(i, bc ! i)] \<subseteq> set (greedy_accept bc rest {bc ! i} [(i, bc ! i)])"
    by (rule greedy_accept_keeps)
  then show ?thesis using Cons by (auto simp: Let_def)
qed

lemma decode_alignment_matrix_nonempty:
  assumes "P \<noteq> []" and "decode_alignment_matrix P = Inr ps"
  shows "ps \<noteq> []"
proof -
  from assms(2) obtain bc where ps: "ps = sort (greedy_accept bc
      (argsort_descending (map (\<lambda>i. (P ! i) ! (bc ! i)) [0..<length P])) {} [])"
    by (auto simp: decode_alignment_matrix_def Let_def split: sum.splits)
  have "set (argsort_descending (map (\<lambda>i. (P ! i) ! (bc ! i)) [0..<length P])) = {0..<length P}"
    using argsort_descending_perm [of "map (\<lambda>i. (P ! i) ! (bc ! i)) [0..<length P]"] by simp
  with assms(1) have "argsort_descending (map (\<lambda>i. (P ! i) ! (bc ! i)) [0..<length P]) \<noteq> []"
    by auto
  then have "greedy_accept bc (argsort_descending (map (\<lambda>i. (P ! i) ! (bc ! i)) [0..<length P])) {} [] \<noteq> []"
    by (rule greedy_accept_first)
  then have "set ps \<noteq> {}" unfolding ps by simp
  then show ?thesis by auto
qed

lemma length_sinkhorn_loop: "length (sinkhorn_loop ops n M) = length M"
  by (induction n arbitrary: M) (simp_all add: Let_def div_rows_def div_cols_def sum_dim1_def)

lemma length_get_sinkhorn_alignment_score:
  "length (snd (get_sinkhorn_alignment_score ops A B len_a len_b c k g n)) = length A"
  by (simp add: get_sinkhorn_alignment_score_def Let_def sinkhorn_iterations_def
      length_sinkhorn_loop mat_map_def mat_mul_elem_def cdist_def)

lemma length_objective:
  "length (snd (objective a X Y m r p)) = length X"
  by (simp add: objective_def length_get_sinkhorn_alignment_score transform_def add_rows_def
      matmul_rows_def split: prod.splits)

lemma search_steps_log:
  "search_steps be obj n freq todo ost p last_P lg = (lg', r) \<Longrightarrow>
   Found_pairs 0 \<notin> set lg \<Longrightarrow> Found_pairs 0 \<notin> set lg'"
  by (induction be obj n freq todo ost p last_P lg rule: search_steps.induct)
     (auto simp: Let_def split: prod.splits if_splits)

lemma search_steps_shape:
  "search_steps be obj n freq todo ost p last_P lg = (lg', Inr (p', Some P)) \<Longrightarrow>
   (\<And>q. length (snd (obj q)) = m) \<Longrightarrow> (\<And>P0. last_P = Some P0 \<Longrightarrow> length P0 = m) \<Longrightarrow>
   length P = m"
proof (induction be obj n freq todo ost p last_P lg rule: search_steps.induct)
  case (1 be obj n_steps freq ost p last_P lg)
  then show ?case by simp
next
  case (2 be obj n_steps freq step rest ost p last_P lg)
  obtain score Q where o: "obj p = (score, Q)" by (cases "obj p")
  have Q: "length Q = m" using "2.prems"(2) [of p] o by simp
  from "2.prems"(1) o have f: "freq \<noteq> 0" by (auto split: if_splits)
  obtain ost' p'' where s: "be_adamw_step be (\<lambda>q. - fst (obj q)) ost p = (ost', p'')"
    by (cases "be_adamw_step be (\<lambda>q. - fst (obj q)) ost p")
  define lg2 where "lg2 = (if step mod freq = 0 \<or> step = n_steps - 1
                       then lg @ [Step_score step score] else lg)"
  from "2.prems"(1) o f s
  have eq: "search_steps be obj n_steps freq rest ost' p'' (Some Q) lg2 = (lg', Inr (p', Some P))"
    by (simp add: Let_def lg2_def)
  show ?case
    by (rule "2.IH" [OF o [symmetric] f lg2_def s [symmetric] eq "2.prems"(2)]) (simp add: Q)
qed

lemma quality_metrics_log:
  "quality_metrics svd f ps = Inr ms \<Longrightarrow> Found_pairs k \<notin> set ms"
  by (auto simp: quality_metrics_def Let_def split: if_splits sum.splits prod.splits)

lemma pairs_rows_log: "Found_pairs k \<notin> set (pairs_rows ps)"
  by (auto simp: pairs_rows_def)

lemma write_outputs_log:
  "write_outputs be a fs f = (fs', lg, e) \<Longrightarrow> Found_pairs k \<notin> set lg"
  by (auto simp: write_outputs_def write_structure_def write_matrix_def write_pdb_def
      split: option.splits if_splits sum.splits prod.splits)

lemma report_and_write_log:
  "report_and_write be a fs f ps = (fs', lg, e) \<Longrightarrow> ps \<noteq> [] \<Longrightarrow> Found_pairs 0 \<notin> set lg"
  using quality_metrics_log [of "be_svd be" f ps _ 0] pairs_rows_log [of 0 ps]
    write_outputs_log [of be a fs f _ _ _ 0]
  by (auto simp: report_and_write_def Let_def split: sum.splits prod.splits)

lemma align_log:
  assumes "align be a fs mob ref = (fs', lg, e)" and "coords mob \<noteq> []"
  shows "Found_pairs 0 \<notin> set lg"
proof -
  define X where "X = sub_rows (coords mob) (mean_dim0 (coords mob))"
  define Y where "Y = sub_rows (coords ref) (mean_dim0 (coords ref))"
  define obj where "obj = objective a X Y (length (sequence mob)) (length (sequence ref))"
  define lg0 where "lg0 = [Chain_lengths (length (sequence mob)) (length (sequence ref))]"
  define st where "st = search_steps be obj (steps a) (print_freq a) (map int [0..<nat (steps a)])
                (be_adamw_init be (lr a)) (0, 0, 0, 0, 0, 0) None (lg0 @ [Search_header])"
  obtain lg1 r where st1: "st = (lg1, r)" by (cases st)
  have X: "length X = length (coords mob)" by (simp add: X_def sub_rows_def)
  have l1: "Found_pairs 0 \<notin> set lg1"
    using search_steps_log [OF st1 [unfolded st_def]] by (simp add: lg0_def)
  have al: "align be a fs mob ref =
      (if lr a < 0 then (fs, lg0, Some ValueError)
       else case st of
           (log1, Inl e) \<Rightarrow> (fs, log1, Some e)
         | (log1, Inr (p, None)) \<Rightarrow> (fs, log1, Some UnboundLocalError)
         | (log1, Inr (p, Some final_P)) \<Rightarrow>
             (case get_transformation_matrix p of (R, u) \<Rightarrow>
                (let f = \<lparr>mobile_coords_opt = X, ref_coords_opt = Y,
                          mobile_center = mean_dim0 (coords mob), ref_center = mean_dim0 (coords ref),
                          mobile_seq = sequence mob, ref_seq = sequence ref,
                          R_final = R, u_final = u,
                          final_aligned_coords = transform R u X\<rparr>
                 in case decode_alignment_matrix final_P of
                      Inl e \<Rightarrow> (fs, log1 @ [Search_finished], Some e)
                    | Inr aligned_pairs \<Rightarrow>
                        (case report_and_write be a fs f aligned_pairs of
                           (fs', log2, e) \<Rightarrow> (fs', log1 @ [Search_finished] @ log2, e)))))"
    unfolding align_def Let_def st_def obj_def X_def Y_def lg0_def by (rule refl)
  show ?thesis
  proof (cases "lr a < 0")
    case True
    then show ?thesis using assms(1) al by (auto simp: lg0_def)
  next
    case False
    show ?thesis
    proof (cases r)
      case (Inl err)
      then show ?thesis using assms(1) al False st1 l1 by auto
    next
      case (Inr pr)
      obtain p last where pr: "pr = (p, last)" by (cases pr)
      show ?thesis
      proof (cases last)
        case None
        then show ?thesis using assms(1) al False st1 l1 Inr pr by auto
      next
        case (Some P)
        have "length P = length X"
          by (rule search_steps_shape [OF st1 [unfolded st_def Inr pr Some]])
             (simp_all add: obj_def length_objective)
        then have P: "P \<noteq> []" using X assms(2) by auto
        obtain R u where g: "get_transformation_matrix p = (R, u)"
          by (cases "get_transformation_matrix p")
        show ?thesis
        proof (cases "decode_alignment_matrix P")
          case (Inl err)
          then show ?thesis using assms(1) al False st1 l1 Inr pr Some g by (auto simp: Let_def)
        next
          case d: (Inr ps)
          have ne: "ps \<noteq> []" by (rule decode_alignment_matrix_nonempty [OF P d])
          then show ?thesis
            using assms(1) al False st1 l1 Inr pr Some g d
              report_and_write_log [of be a fs _ ps _ _ _, OF _ ne]
            by (auto simp: Let_def split: prod.splits)
        qed
      qed
    qed
  qed
qed

lemma parse_pdb_coords:
  "parse_pdb pf fs file_path chain_id ca = Inr (msgs, Some p) \<Longrightarrow> coords p \<noteq> []"
  by (auto simp: parse_pdb_def split: option.splits sum.splits if_splits)

lemma main_alignment_nonempty:
  assumes "main be a fs = (fs', lg, e)"
  shows "Found_pairs 0 \<notin> set lg"
  using assms parse_pdb_coords [of "be_float be" fs "mobile a" "mobile_chain a" True]
    align_log [of be a fs]
  by (auto simp: main_def split: sum.splits prod.splits option.splits)

end
